theory Spec2Isabelle
  imports Main
begin

section \<open>The Go runtime the mergers and the multiplexer rely on\<close>

text \<open>
  A run-time panic (or a goroutine that can never go on) is a value of \<open>fault\<close>; an
  operation that may panic returns \<open>fault + 'a\<close>, with \<open>Inl\<close> for the panic.
  \<open>ForeignPanic\<close> is a panic raised by code that is not in the modelled files.
\<close>

datatype fault =
    IndexOutOfRange
  | DivideByZero
  | MakeNegativeLen
  | LockOfLockedMutex
  | UnlockOfUnlockedMutex
  | ForeignPanic

text \<open>Go's \<open>xs[i]\<close> with an \<open>int\<close> index: a panic outside \<open>0 \<le> i < len(xs)\<close>.\<close>

definition go_index :: "'a list \<Rightarrow> int \<Rightarrow> fault + 'a" where
  "go_index xs i = (if 0 \<le> i \<and> i < int (length xs) then Inr (xs ! nat i) else Inl IndexOutOfRange)"

text \<open>
  Go's \<open>a % b\<close> on \<open>int\<close>: the remainder of the division truncated towards zero (its
  sign is the sign of \<open>a\<close>), and a panic when \<open>b\<close> is zero.
\<close>

definition go_rem :: "int \<Rightarrow> int \<Rightarrow> fault + int" where
  "go_rem a b = (if b = 0 then Inl DivideByZero else Inr (sgn a * (\<bar>a\<bar> mod \<bar>b\<bar>)))"

text \<open>
  A slice is a window on a backing array. \<open>sl_elems\<close> are the cells \<open>0 .. len-1\<close>, the
  slice's elements; \<open>sl_spare\<close> are the cells \<open>len .. cap-1\<close> of the same array, which
  the slice does not show but an older copy of the slice header still reads.
\<close>

record 'a slice =
  sl_elems :: "'a list"
  sl_spare :: "'a list"

definition sl_backing :: "'a slice \<Rightarrow> 'a list" where
  "sl_backing s = sl_elems s @ sl_spare s"

text \<open>\<open>make([]T, 0)\<close>: no element.\<close>

definition go_make0 :: "'a slice" where
  "go_make0 = \<lparr>sl_elems = [], sl_spare = []\<rparr>"

text \<open>
  \<open>append(s, x)\<close>: with spare capacity the next cell of the backing array is overwritten;
  without, the elements move to a new array (the cells Go allocates beyond the new
  length hold zero values and are never read by this program, so none is kept).
\<close>

definition go_append :: "'a slice \<Rightarrow> 'a \<Rightarrow> 'a slice" where
  "go_append s x =
     (case sl_spare s of
        [] \<Rightarrow> \<lparr>sl_elems = sl_elems s @ [x], sl_spare = []\<rparr>
      | y # ys \<Rightarrow> \<lparr>sl_elems = sl_elems s @ [x], sl_spare = ys\<rparr>)"

text \<open>
  \<open>append(s[:i], s[i+1:]...)\<close> for \<open>i < len(s)\<close>: the result fits the capacity, so the
  cells \<open>i+1 .. len-1\<close> are copied one place down inside the same backing array and the
  new slice is one shorter. Cell \<open>len-1\<close> is not cleared: it keeps the old last element.
\<close>

definition go_delete :: "nat \<Rightarrow> 'a slice \<Rightarrow> 'a slice" where
  "go_delete i s =
     \<lparr>sl_elems = take i (sl_elems s) @ drop (Suc i) (sl_elems s),
      sl_spare = last (sl_elems s) # sl_spare s\<rparr>"

text \<open>
  The loop of both \<open>unsetSource\<close> methods:
  \<^verbatim>\<open>for i, source := range ego.sources { if source == s { ego.sources = append(...); break } }\<close>
  \<open>firstIndex\<close> is the first \<open>i\<close> with \<open>source == s\<close>, if any.
\<close>

primrec firstIndex :: "'a \<Rightarrow> 'a list \<Rightarrow> nat option" where
  "firstIndex s [] = None"
| "firstIndex s (x # xs) = (if x = s then Some 0 else map_option Suc (firstIndex s xs))"

definition removeFirst :: "'a \<Rightarrow> 'a slice \<Rightarrow> 'a slice" where
  "removeFirst s sl = (case firstIndex s (sl_elems sl) of None \<Rightarrow> sl | Some i \<Rightarrow> go_delete i sl)"

text \<open>
  A \<open>sync.Mutex\<close> is the flag "held". The model runs one goroutine: \<open>Lock\<close> on a held
  mutex would wait for ever, \<open>Unlock\<close> on a free one is a fatal error.
\<close>

definition mutex_Lock :: "bool \<Rightarrow> fault + bool" where
  "mutex_Lock held = (if held then Inl LockOfLockedMutex else Inr True)"

definition mutex_Unlock :: "bool \<Rightarrow> fault + bool" where
  "mutex_Unlock held = (if held then Inr False else Inl UnlockOfUnlockedMutex)"

section \<open>The bounded buffer (ChanneledInput)\<close>

text \<open>
  Modelled from the spec: the type \<open>ChanneledInput\<close> (and \<open>DefaultClosable\<close>, which it
  embeds) is not among the sources. The spec calls it "a fixed-capacity FIFO exposing
  write, close, and a read that reports validity", with \<open>close()\<close> idempotent.
  \<open>ci_chan\<close> holds the values in the channel, oldest first; \<open>ci_closed\<close> is the closed
  flag, which is also the state of the Go channel.
\<close>

record 'a channeledInput =
  ci_chan :: "'a list"
  ci_closed :: bool

text \<open>Modelled from the spec: \<open>NewChanneledInput\<close>, an open buffer with nothing in it.\<close>

definition NewChanneledInput :: "'a channeledInput" where
  "NewChanneledInput = \<lparr>ci_chan = [], ci_closed = False\<rparr>"

text \<open>Modelled from the spec: \<open>ChanneledInput.Close\<close>, idempotent; what is buffered stays readable.\<close>

definition ChanneledInput_Close :: "'a channeledInput \<Rightarrow> 'a channeledInput" where
  "ChanneledInput_Close c = c\<lparr>ci_closed := True\<rparr>"

text \<open>
  A receive \<open>v, valid := <-ch\<close>. A value in the channel is received, also after the close;
  a closed and drained channel gives \<open>valid = false\<close>; an open empty channel has nothing
  (the blocking receive waits, the \<open>select\<close> with \<open>default\<close> takes the default).
\<close>

datatype 'a recv = Received 'a | ChannelClosed | NothingReady

definition chan_recv :: "'a channeledInput \<Rightarrow> 'a recv \<times> 'a channeledInput" where
  "chan_recv c =
     (case ci_chan c of
        v # vs \<Rightarrow> (Received v, c\<lparr>ci_chan := vs\<rparr>)
      | [] \<Rightarrow> (if ci_closed c then ChannelClosed else NothingReady, c))"

section \<open>activeMerger\<close>

text \<open>
  The registry holds references to channeled producers; a reference is a number, and
  \<open>source == s\<close> is equality of numbers. \<open>am_closed\<close> is the flag of the embedded
  \<open>DefaultClosable\<close> (modelled from the spec: \<open>Closed()\<close> reads it, \<open>Close()\<close> sets it).
  \<open>nextToReadFrom\<close> is a Go \<open>int\<close>; it only ever holds 0 or a remainder by a registry
  length, so the increment cannot wrap and an unbounded \<open>int\<close> stands for it.
\<close>

record activeMerger =
  am_closed :: bool
  am_sources :: "nat slice"
  am_autoclose :: bool
  am_sourcesLock :: bool
  am_nextToReadFrom :: int

definition NewActiveMerger :: "bool \<Rightarrow> activeMerger" where
  "NewActiveMerger autoclose =
     \<lparr>am_closed = False, am_sources = go_make0, am_autoclose = autoclose,
      am_sourcesLock = False, am_nextToReadFrom = 0\<rparr>"

definition am_Lock :: "activeMerger \<Rightarrow> fault + activeMerger" where
  "am_Lock ego =
     (case mutex_Lock (am_sourcesLock ego) of
        Inl e \<Rightarrow> Inl e
      | Inr h \<Rightarrow> Inr (ego\<lparr>am_sourcesLock := h\<rparr>))"

definition am_Unlock :: "activeMerger \<Rightarrow> fault + activeMerger" where
  "am_Unlock ego =
     (case mutex_Unlock (am_sourcesLock ego) of
        Inl e \<Rightarrow> Inl e
      | Inr h \<Rightarrow> Inr (ego\<lparr>am_sourcesLock := h\<rparr>))"

text \<open>
  \<open>unsetSource\<close> and \<open>Close\<close> call each other. \<open>activeMerger_CloseRange i n\<close> is the loop
  \<^verbatim>\<open>for _, s := range ego.sources { ego.unsetSource(s) }\<close> of \<open>Close\<close> at index \<open>i\<close>:
  \<open>range\<close> evaluates \<open>ego.sources\<close> once, so \<open>n\<close> is the length at the start, and reads
  cell \<open>i\<close> of the backing array in each round. \<open>unsetSource\<close> shortens \<open>ego.sources\<close> in
  place, inside that same array, so the cell read is cell \<open>i\<close> of the current backing.

  In \<open>unsetSource\<close> the \<open>Unlock\<close> is deferred: it runs when the method returns, also
  after the call of \<open>Close\<close>.
\<close>

function activeMerger_unsetSource :: "activeMerger \<Rightarrow> nat \<Rightarrow> fault + activeMerger"
  and activeMerger_Close :: "activeMerger \<Rightarrow> fault + activeMerger"
  and activeMerger_CloseRange :: "nat \<Rightarrow> nat \<Rightarrow> activeMerger \<Rightarrow> fault + activeMerger"
where
  "activeMerger_unsetSource ego s =
     (if am_closed ego then Inr ego
      else case am_Lock ego of
        Inl e \<Rightarrow> Inl e
      | Inr ego1 \<Rightarrow>
          (case (if am_autoclose ego1 \<and> length (sl_elems (removeFirst s (am_sources ego1))) = 0
                 then activeMerger_Close (ego1\<lparr>am_sources := removeFirst s (am_sources ego1)\<rparr>)
                 else Inr (ego1\<lparr>am_sources := removeFirst s (am_sources ego1)\<rparr>)) of
             Inl e \<Rightarrow> Inl e
           | Inr ego2 \<Rightarrow> am_Unlock ego2))"
| "activeMerger_Close ego =
     (case activeMerger_CloseRange 0 (length (sl_elems (am_sources ego))) ego of
        Inl e \<Rightarrow> Inl e
      | Inr ego1 \<Rightarrow> Inr (ego1\<lparr>am_closed := True\<rparr>))"
| "activeMerger_CloseRange i n ego =
     (if i < n then
        (case go_index (sl_backing (am_sources ego)) (int i) of
           Inl e \<Rightarrow> Inl e
         | Inr s \<Rightarrow>
             (case activeMerger_unsetSource ego s of
                Inl e \<Rightarrow> Inl e
              | Inr ego1 \<Rightarrow> activeMerger_CloseRange (Suc i) n ego1))
      else Inr ego)"
  by pat_completeness auto
termination
  by (relation "measure (\<lambda>x. case x of
          Inl (ego, s) \<Rightarrow> 3
        | Inr (Inl ego) \<Rightarrow> 4 * length (sl_elems (am_sources ego)) + 2
        | Inr (Inr (i, n, ego)) \<Rightarrow> 4 * (n - i) + 1)") auto


declare activeMerger_unsetSource.simps [simp del]
declare activeMerger_Close.simps [simp del]
declare activeMerger_CloseRange.simps [simp del]

text \<open>
  The argument of \<open>SetSource\<close>: \<open>Channeled c\<close> when the type assertion
  \<open>s.(ChanneledProducer[T])\<close> succeeds, \<open>c\<close> being the reference; \<open>Plain p\<close> otherwise.
\<close>

datatype producer = Channeled nat | Plain nat

text \<open>
  \<open>SetSource\<close> returns the error (\<open>None\<close> is Go's \<open>nil\<close>) and the merger. For a plain
  producer the registry gets the buffer made by \<open>NewChanneledInput[T](0)\<close>; its reference
  is the parameter \<open>chp\<close>. The goroutine that feeds that buffer runs beside the caller and
  is not part of the call.
\<close>

definition activeMerger_SetSource ::
  "activeMerger \<Rightarrow> producer \<Rightarrow> nat \<Rightarrow> fault + (string option \<times> activeMerger)" where
  "activeMerger_SetSource ego s chp =
     (if am_closed ego then Inr (Some ''the stream is already closed'', ego)
      else case s of
        Channeled c \<Rightarrow>
          (case am_Lock ego of
             Inl e \<Rightarrow> Inl e
           | Inr ego1 \<Rightarrow>
               (case am_Unlock (ego1\<lparr>am_sources := go_append (am_sources ego1) c\<rparr>) of
                  Inl e \<Rightarrow> Inl e
                | Inr ego2 \<Rightarrow> Inr (None, ego2)))
      | Plain p \<Rightarrow>
          (case am_Lock ego of
             Inl e \<Rightarrow> Inl e
           | Inr ego1 \<Rightarrow>
               (case am_Unlock (ego1\<lparr>am_sources := go_append (am_sources ego1) chp\<rparr>) of
                  Inl e \<Rightarrow> Inl e
                | Inr ego2 \<Rightarrow> Inr (None, ego2))))"

definition activeMerger_CanSetSource :: "activeMerger \<Rightarrow> bool" where
  "activeMerger_CanSetSource ego = True"

text \<open>
  \<open>Consume\<close> polls in a loop. One round of the loop ends in \<open>Returned v\<close> (the
  \<open>return value, valid, nil\<close> of line 156), \<open>Broke\<close> (the \<open>break\<close> of line 142) or
  \<open>Continue\<close>. The buffers of the sources live outside the merger: \<open>chs c\<close> is the
  buffer behind the reference \<open>c\<close>.
\<close>

datatype 'a pollOutcome = Returned 'a | Broke | Continue

text \<open>The \<open>select\<close> statement of lines 147 to 162, entered with the lock held.\<close>

definition activeMerger_Consume_select ::
  "(nat \<Rightarrow> 'a channeledInput) \<Rightarrow> activeMerger
     \<Rightarrow> fault + ('a pollOutcome \<times> (nat \<Rightarrow> 'a channeledInput) \<times> activeMerger)" where
  "activeMerger_Consume_select chs ego =
     (case go_index (sl_elems (am_sources ego)) (am_nextToReadFrom ego) of
        Inl e \<Rightarrow> Inl e
      | Inr src \<Rightarrow>
          (case chan_recv (chs src) of
             (Received v, c) \<Rightarrow>
               (case am_Unlock ego of
                  Inl e \<Rightarrow> Inl e
                | Inr ego1 \<Rightarrow> Inr (Returned v, chs(src := c), ego1))
           | (ChannelClosed, c) \<Rightarrow>
               (case go_index (sl_elems (am_sources ego)) (am_nextToReadFrom ego) of
                  Inl e \<Rightarrow> Inl e
                | Inr toUnset \<Rightarrow>
                    (case am_Unlock ego of
                       Inl e \<Rightarrow> Inl e
                     | Inr ego1 \<Rightarrow>
                         (case activeMerger_unsetSource ego1 toUnset of
                            Inl e \<Rightarrow> Inl e
                          | Inr ego2 \<Rightarrow> Inr (Continue, chs, ego2))))
           | (NothingReady, c) \<Rightarrow>
               (case am_Unlock ego of
                  Inl e \<Rightarrow> Inl e
                | Inr ego1 \<Rightarrow> Inr (Continue, chs, ego1))))"

text \<open>One round of the loop, lines 139 to 162.\<close>

definition activeMerger_Consume_round ::
  "(nat \<Rightarrow> 'a channeledInput) \<Rightarrow> activeMerger
     \<Rightarrow> fault + ('a pollOutcome \<times> (nat \<Rightarrow> 'a channeledInput) \<times> activeMerger)" where
  "activeMerger_Consume_round chs ego =
     (case am_Lock ego of
        Inl e \<Rightarrow> Inl e
      | Inr ego1 \<Rightarrow>
          if length (sl_elems (am_sources ego1)) = 0 then
            (case am_Unlock ego1 of
               Inl e \<Rightarrow> Inl e
             | Inr ego2 \<Rightarrow> Inr (Broke, chs, ego2))
          else
            (case go_rem (am_nextToReadFrom ego1 + 1) (int (length (sl_elems (am_sources ego1)))) of
               Inl e \<Rightarrow> Inl e
             | Inr c \<Rightarrow> activeMerger_Consume_select chs (ego1\<lparr>am_nextToReadFrom := c\<rparr>)))"

text \<open>
  The loop polls for as long as no source has a value: it need not end. \<open>fuel\<close> bounds
  the number of rounds, and \<open>None\<close> says that the loop has not ended within them.
\<close>

fun activeMerger_Consume_loop ::
  "nat \<Rightarrow> (nat \<Rightarrow> 'a channeledInput) \<Rightarrow> activeMerger
     \<Rightarrow> (fault + ('a pollOutcome \<times> (nat \<Rightarrow> 'a channeledInput) \<times> activeMerger)) option" where
  "activeMerger_Consume_loop 0 chs ego = None"
| "activeMerger_Consume_loop (Suc fuel) chs ego =
     (case activeMerger_Consume_round chs ego of
        Inl e \<Rightarrow> Some (Inl e)
      | Inr (Continue, chs1, ego1) \<Rightarrow> activeMerger_Consume_loop fuel chs1 ego1
      | Inr (out, chs1, ego1) \<Rightarrow> Some (Inr (out, chs1, ego1)))"

text \<open>
  The result of \<open>Consume\<close> and \<open>Get\<close> is the triple \<open>(value, valid, err)\<close>, with \<open>None\<close>
  for a \<open>nil\<close> error. Go's zero value \<open>*new(T)\<close> is the \<open>0\<close> of the type.
\<close>

type_synonym 'a got = "'a \<times> bool \<times> string option"

definition activeMerger_Consume ::
  "nat \<Rightarrow> (nat \<Rightarrow> 'a channeledInput) \<Rightarrow> activeMerger
     \<Rightarrow> (fault + ('a::zero got \<times> (nat \<Rightarrow> 'a channeledInput) \<times> activeMerger)) option" where
  "activeMerger_Consume fuel chs ego =
     (case activeMerger_Consume_loop fuel chs ego of
        None \<Rightarrow> None
      | Some (Inl e) \<Rightarrow> Some (Inl e)
      | Some (Inr (Returned v, chs1, ego1)) \<Rightarrow> Some (Inr ((v, True, None), chs1, ego1))
      | Some (Inr (out, chs1, ego1)) \<Rightarrow>
          (if am_closed ego1 then Some (Inr ((0, False, None), chs1, ego1))
           else Some (Inr ((0, True,
                  Some ''no sources attached yet or all sources were unset and autoclose is not active''),
                  chs1, ego1))))"

definition activeMerger_Get ::
  "nat \<Rightarrow> (nat \<Rightarrow> 'a channeledInput) \<Rightarrow> activeMerger
     \<Rightarrow> (fault + ('a::zero got \<times> (nat \<Rightarrow> 'a channeledInput) \<times> activeMerger)) option" where
  "activeMerger_Get fuel chs ego = activeMerger_Consume fuel chs ego"


text \<open>
  A merger between two calls: nobody holds the registry lock, and the cursor is not
  negative (it is 0 in a new merger, and a remainder by a positive length afterwards).
\<close>

definition am_idle :: "activeMerger \<Rightarrow> bool" where
  "am_idle ego \<longleftrightarrow> \<not> am_sourcesLock ego \<and> 0 \<le> am_nextToReadFrom ego"

section \<open>channeledLazyMerger\<close>

text \<open>
  \<open>lm_input\<close> is the embedded \<open>ChanneledInput\<close>: the shared buffer and the closed flag
  that \<open>ego.Closed()\<close> reads. The registry holds references to producers. The
  forwarding goroutines (\<open>merge\<close>) run beside the caller; what they have written is in
  \<open>lm_input\<close> and in \<open>lm_overflowBuffer\<close>.
\<close>

record 'a channeledLazyMerger =
  lm_input :: "'a channeledInput"
  lm_sources :: "nat slice"
  lm_autoclose :: bool
  lm_overflowBuffer :: "'a list"
  lm_sourcesLock :: bool
  lm_overflowBufferLock :: bool

definition NewChanneledLazyMerger :: "int \<Rightarrow> bool \<Rightarrow> 'a channeledLazyMerger" where
  "NewChanneledLazyMerger capacity autoclose =
     \<lparr>lm_input = NewChanneledInput, lm_sources = go_make0, lm_autoclose = autoclose,
      lm_overflowBuffer = [], lm_sourcesLock = False, lm_overflowBufferLock = False\<rparr>"

definition lm_Closed :: "'a channeledLazyMerger \<Rightarrow> bool" where
  "lm_Closed ego = ci_closed (lm_input ego)"

definition lm_Lock :: "'a channeledLazyMerger \<Rightarrow> fault + 'a channeledLazyMerger" where
  "lm_Lock ego =
     (case mutex_Lock (lm_sourcesLock ego) of
        Inl e \<Rightarrow> Inl e
      | Inr h \<Rightarrow> Inr (ego\<lparr>lm_sourcesLock := h\<rparr>))"

definition lm_Unlock :: "'a channeledLazyMerger \<Rightarrow> fault + 'a channeledLazyMerger" where
  "lm_Unlock ego =
     (case mutex_Unlock (lm_sourcesLock ego) of
        Inl e \<Rightarrow> Inl e
      | Inr h \<Rightarrow> Inr (ego\<lparr>lm_sourcesLock := h\<rparr>))"

definition lm_overflowLock :: "'a channeledLazyMerger \<Rightarrow> fault + 'a channeledLazyMerger" where
  "lm_overflowLock ego =
     (case mutex_Lock (lm_overflowBufferLock ego) of
        Inl e \<Rightarrow> Inl e
      | Inr h \<Rightarrow> Inr (ego\<lparr>lm_overflowBufferLock := h\<rparr>))"

definition lm_overflowUnlock :: "'a channeledLazyMerger \<Rightarrow> fault + 'a channeledLazyMerger" where
  "lm_overflowUnlock ego =
     (case mutex_Unlock (lm_overflowBufferLock ego) of
        Inl e \<Rightarrow> Inl e
      | Inr h \<Rightarrow> Inr (ego\<lparr>lm_overflowBufferLock := h\<rparr>))"

text \<open>
  \<open>unsetSource\<close> and \<open>Close\<close> call each other, and the loop of \<open>Close\<close>
  (\<^verbatim>\<open>for numSources > 0 { ... }\<close>, here \<open>channeledLazyMerger_Close_loop\<close>, entered with the
  lock held) need not end: \<open>unsetSource\<close> removes nothing from a closed merger. Every
  call and every round takes one unit of \<open>fuel\<close>; \<open>None\<close> says that the fuel ran out.
\<close>

fun channeledLazyMerger_unsetSource ::
      "nat \<Rightarrow> 'a channeledLazyMerger \<Rightarrow> nat \<Rightarrow> (fault + 'a channeledLazyMerger) option"
  and channeledLazyMerger_Close ::
      "nat \<Rightarrow> 'a channeledLazyMerger \<Rightarrow> (fault + 'a channeledLazyMerger) option"
  and channeledLazyMerger_Close_loop ::
      "nat \<Rightarrow> 'a channeledLazyMerger \<Rightarrow> (fault + 'a channeledLazyMerger) option"
where
  "channeledLazyMerger_unsetSource 0 ego s = None"
| "channeledLazyMerger_unsetSource (Suc fuel) ego s =
     (if lm_Closed ego then Some (Inr ego)
      else case lm_Lock ego of
        Inl e \<Rightarrow> Some (Inl e)
      | Inr ego1 \<Rightarrow>
          if lm_autoclose ego1 \<and> length (sl_elems (removeFirst s (lm_sources ego1))) = 0 then
            (case lm_Unlock (ego1\<lparr>lm_sources := removeFirst s (lm_sources ego1)\<rparr>) of
               Inl e \<Rightarrow> Some (Inl e)
             | Inr ego2 \<Rightarrow> channeledLazyMerger_Close fuel ego2)
          else Some (lm_Unlock (ego1\<lparr>lm_sources := removeFirst s (lm_sources ego1)\<rparr>)))"
| "channeledLazyMerger_Close 0 ego = None"
| "channeledLazyMerger_Close (Suc fuel) ego =
     (case lm_Lock ego of
        Inl e \<Rightarrow> Some (Inl e)
      | Inr ego1 \<Rightarrow>
          (case channeledLazyMerger_Close_loop fuel ego1 of
             None \<Rightarrow> None
           | Some (Inl e) \<Rightarrow> Some (Inl e)
           | Some (Inr ego2) \<Rightarrow>
               (case lm_Unlock ego2 of
                  Inl e \<Rightarrow> Some (Inl e)
                | Inr ego3 \<Rightarrow> Some (Inr (ego3\<lparr>lm_input := ChanneledInput_Close (lm_input ego3)\<rparr>)))))"
| "channeledLazyMerger_Close_loop 0 ego = None"
| "channeledLazyMerger_Close_loop (Suc fuel) ego =
     (if length (sl_elems (lm_sources ego)) > 0 then
        (case go_index (sl_elems (lm_sources ego)) 0 of
           Inl e \<Rightarrow> Some (Inl e)
         | Inr s \<Rightarrow>
             (case lm_Unlock ego of
                Inl e \<Rightarrow> Some (Inl e)
              | Inr ego1 \<Rightarrow>
                  (case channeledLazyMerger_unsetSource fuel ego1 s of
                     None \<Rightarrow> None
                   | Some (Inl e) \<Rightarrow> Some (Inl e)
                   | Some (Inr ego2) \<Rightarrow>
                       (case lm_Lock ego2 of
                          Inl e \<Rightarrow> Some (Inl e)
                        | Inr ego3 \<Rightarrow> channeledLazyMerger_Close_loop fuel ego3))))
      else Some (Inr ego))"

text \<open>
  \<open>SetSource\<close> returns the error (\<open>None\<close> is \<open>nil\<close>) and the merger; the goroutine it
  starts (\<open>go ego.merge(s)\<close>) is not part of the call.
\<close>

definition channeledLazyMerger_SetSource ::
  "'a channeledLazyMerger \<Rightarrow> nat \<Rightarrow> fault + (string option \<times> 'a channeledLazyMerger)" where
  "channeledLazyMerger_SetSource ego s =
     (case lm_Lock ego of
        Inl e \<Rightarrow> Inl e
      | Inr ego1 \<Rightarrow>
          if lm_Closed ego1 then
            (case lm_Unlock ego1 of
               Inl e \<Rightarrow> Inl e
             | Inr ego2 \<Rightarrow> Inr (Some ''the stream is already closed'', ego2))
          else
            (case lm_Unlock (ego1\<lparr>lm_sources := go_append (lm_sources ego1) s\<rparr>) of
               Inl e \<Rightarrow> Inl e
             | Inr ego2 \<Rightarrow> Inr (None, ego2)))"

definition channeledLazyMerger_CanSetSource :: "'a channeledLazyMerger \<Rightarrow> bool" where
  "channeledLazyMerger_CanSetSource ego = True"

text \<open>
  \<open>Consume\<close> starts with the blocking receive \<open>value, valid = <-ego.Channel()\<close>: on an
  open and empty buffer it waits, and with no other goroutine it does not return, which
  is \<open>None\<close>. \<open>ego.overflowBuffer[1:]\<close> is \<open>drop 1\<close>.
\<close>

definition channeledLazyMerger_Consume ::
  "'a::zero channeledLazyMerger \<Rightarrow> (fault + ('a got \<times> 'a channeledLazyMerger)) option" where
  "channeledLazyMerger_Consume ego =
     (case chan_recv (lm_input ego) of
        (NothingReady, c) \<Rightarrow> None
      | (Received v, c) \<Rightarrow> Some (Inr ((v, True, None), ego\<lparr>lm_input := c\<rparr>))
      | (ChannelClosed, c) \<Rightarrow>
          if length (lm_overflowBuffer ego) > 0 then
            (case lm_overflowLock ego of
               Inl e \<Rightarrow> Some (Inl e)
             | Inr ego1 \<Rightarrow>
                 (case go_index (lm_overflowBuffer ego1) 0 of
                    Inl e \<Rightarrow> Some (Inl e)
                  | Inr v \<Rightarrow>
                      (case lm_overflowUnlock
                              (ego1\<lparr>lm_overflowBuffer := drop 1 (lm_overflowBuffer ego1)\<rparr>) of
                         Inl e \<Rightarrow> Some (Inl e)
                       | Inr ego2 \<Rightarrow> Some (Inr ((v, True, None), ego2)))))
          else Some (Inr ((0, False, None), ego)))"

definition channeledLazyMerger_Get ::
  "'a::zero channeledLazyMerger \<Rightarrow> (fault + ('a got \<times> 'a channeledLazyMerger)) option" where
  "channeledLazyMerger_Get ego = channeledLazyMerger_Consume ego"

text \<open>
  A reader that calls \<open>Get\<close> \<open>n\<close> times in a row: the results in the order of the
  calls, and the merger after the last one.
\<close>

fun channeledLazyMerger_Gets ::
  "nat \<Rightarrow> 'a::zero channeledLazyMerger \<Rightarrow> (fault + ('a got list \<times> 'a channeledLazyMerger)) option" where
  "channeledLazyMerger_Gets 0 ego = Some (Inr ([], ego))"
| "channeledLazyMerger_Gets (Suc n) ego =
     (case channeledLazyMerger_Get ego of
        None \<Rightarrow> None
      | Some (Inl e) \<Rightarrow> Some (Inl e)
      | Some (Inr (g, ego1)) \<Rightarrow>
          (case channeledLazyMerger_Gets n ego1 of
             None \<Rightarrow> None
           | Some (Inl e) \<Rightarrow> Some (Inl e)
           | Some (Inr (gs, ego2)) \<Rightarrow> Some (Inr (g # gs, ego2))))"


section \<open>multiplexer\<close>

text \<open>
  The outputs are the buffers themselves, in order. The capacity given to
  \<open>NewMultiplexer\<close> bounds each channel; the model keeps every value written and does
  not make a writer wait. \<open>make([]ChanneledInput[T], branches)\<close> panics on a negative
  length.
\<close>

record 'a multiplexer =
  mx_outputs :: "'a channeledInput list"

definition NewMultiplexer :: "int \<Rightarrow> int \<Rightarrow> fault + 'a multiplexer" where
  "NewMultiplexer capacity branches =
     (if branches < 0 then Inl MakeNegativeLen
      else Inr \<lparr>mx_outputs = replicate (nat branches) NewChanneledInput\<rparr>)"

definition multiplexer_Out :: "'a multiplexer \<Rightarrow> int \<Rightarrow> fault + 'a channeledInput" where
  "multiplexer_Out ego index = go_index (mx_outputs ego) index"

text \<open>
  \<open>pipeData\<close> pulls with \<open>ego.Consume()\<close>, a method of the embedded \<open>DefaultConsumer\<close>
  that asks the attached source. The upstream is the list of what the successive calls
  give: \<open>Answer value valid err\<close>, or \<open>Panics\<close> when the call panics. After the last
  element the upstream says nothing more, and the call does not return.

  \<open>ChanneledInput.Write\<close> is not among the sources and is the parameter \<open>wr\<close>: it gives
  the buffer after the write, or panics.
\<close>

datatype 'a answer = Answer 'a bool "string option" | Panics

text \<open>\<^verbatim>\<open>for _, output := range ego.outputs { output.Write(value) }\<close>: a panic ends it.\<close>

fun multiplexer_writeAll ::
  "('a channeledInput \<Rightarrow> 'a \<Rightarrow> fault + 'a channeledInput) \<Rightarrow> 'a channeledInput list \<Rightarrow> 'a
     \<Rightarrow> fault option \<times> 'a channeledInput list" where
  "multiplexer_writeAll wr [] v = (None, [])"
| "multiplexer_writeAll wr (output # rest) v =
     (case wr output v of
        Inl e \<Rightarrow> (Some e, output # rest)
      | Inr output1 \<Rightarrow>
          (case multiplexer_writeAll wr rest v of (r, rest1) \<Rightarrow> (r, output1 # rest1)))"

text \<open>
  The \<open>for\<close> loop of \<open>pipeData\<close>. The result says how the loop was left (\<open>None\<close> for the
  \<open>return\<close>, \<open>Some e\<close> for a panic) and gives the outputs at that moment.
\<close>

fun multiplexer_pipeData_loop ::
  "('a channeledInput \<Rightarrow> 'a \<Rightarrow> fault + 'a channeledInput) \<Rightarrow> 'a answer list
     \<Rightarrow> 'a channeledInput list \<Rightarrow> (fault option \<times> 'a channeledInput list) option" where
  "multiplexer_pipeData_loop wr [] outs = None"
| "multiplexer_pipeData_loop wr (Panics # ups) outs = Some (Some ForeignPanic, outs)"
| "multiplexer_pipeData_loop wr (Answer v valid err # ups) outs =
     (if err \<noteq> None \<or> \<not> valid then Some (None, outs)
      else case multiplexer_writeAll wr outs v of
        (Some e, outs1) \<Rightarrow> Some (Some e, outs1)
      | (None, outs1) \<Rightarrow> multiplexer_pipeData_loop wr ups outs1)"

text \<open>
  \<^verbatim>\<open>for _, output := range ego.outputs { defer output.Close() }\<close>: the deferred calls run
  when \<open>pipeData\<close> is left, by \<open>return\<close> or by a panic, the last deferred first.
\<close>

definition multiplexer_deferred ::
  "'a channeledInput list \<Rightarrow> 'a channeledInput list" where
  "multiplexer_deferred outs =
     fold (\<lambda>i os. os[i := ChanneledInput_Close (os ! i)]) (rev [0..<length outs]) outs"

definition multiplexer_pipeData ::
  "('a channeledInput \<Rightarrow> 'a \<Rightarrow> fault + 'a channeledInput) \<Rightarrow> 'a answer list
     \<Rightarrow> 'a multiplexer \<Rightarrow> (fault option \<times> 'a multiplexer) option" where
  "multiplexer_pipeData wr ups ego =
     (case multiplexer_pipeData_loop wr ups (mx_outputs ego) of
        None \<Rightarrow> None
      | Some (ex, outs) \<Rightarrow> Some (ex, ego\<lparr>mx_outputs := multiplexer_deferred outs\<rparr>))"

section \<open>Basic facts: mutexes\<close>

lemma am_Lock_free: "\<not> am_sourcesLock ego \<Longrightarrow> am_Lock ego = Inr (ego\<lparr>am_sourcesLock := True\<rparr>)"
  by (simp add: am_Lock_def mutex_Lock_def)

lemma am_Unlock_held: "am_sourcesLock ego \<Longrightarrow> am_Unlock ego = Inr (ego\<lparr>am_sourcesLock := False\<rparr>)"
  by (simp add: am_Unlock_def mutex_Unlock_def)

lemma am_lock_idle: "\<not> am_sourcesLock ego \<Longrightarrow> ego\<lparr>am_sourcesLock := False\<rparr> = ego"
  by (cases ego) simp

lemma lm_Lock_free: "\<not> lm_sourcesLock ego \<Longrightarrow> lm_Lock ego = Inr (ego\<lparr>lm_sourcesLock := True\<rparr>)"
  by (simp add: lm_Lock_def mutex_Lock_def)

lemma lm_Unlock_held: "lm_sourcesLock ego \<Longrightarrow> lm_Unlock ego = Inr (ego\<lparr>lm_sourcesLock := False\<rparr>)"
  by (simp add: lm_Unlock_def mutex_Unlock_def)

lemma lm_lock_idle: "\<not> lm_sourcesLock ego \<Longrightarrow> ego\<lparr>lm_sourcesLock := False\<rparr> = ego"
  by (cases ego) simp

lemma lm_overflowLock_free:
  "\<not> lm_overflowBufferLock ego \<Longrightarrow> lm_overflowLock ego = Inr (ego\<lparr>lm_overflowBufferLock := True\<rparr>)"
  by (simp add: lm_overflowLock_def mutex_Lock_def)

lemma lm_overflowUnlock_held:
  "lm_overflowBufferLock ego \<Longrightarrow> lm_overflowUnlock ego = Inr (ego\<lparr>lm_overflowBufferLock := False\<rparr>)"
  by (simp add: lm_overflowUnlock_def mutex_Unlock_def)

lemma lm_overflow_lock_idle:
  "\<not> lm_overflowBufferLock ego \<Longrightarrow> ego\<lparr>lm_overflowBufferLock := False\<rparr> = ego"
  by (cases ego) simp

section \<open>Basic facts: slices\<close>

lemma firstIndex_None: "firstIndex s xs = None \<longleftrightarrow> s \<notin> set xs"
  by (induction xs) auto


lemma firstIndex_remove1:
  "firstIndex s xs = Some i \<Longrightarrow> take i xs @ drop (Suc i) xs = remove1 s xs"
  by (induction xs arbitrary: i) (auto split: if_splits)

lemma elems_removeFirst: "sl_elems (removeFirst s sl) = remove1 s (sl_elems sl)"
proof (cases "firstIndex s (sl_elems sl)")
  case None
  then have "s \<notin> set (sl_elems sl)" by (simp add: firstIndex_None)
  then have "remove1 s (sl_elems sl) = sl_elems sl" by (simp add: remove1_idem)
  with None show ?thesis by (simp add: removeFirst_def)
next
  case (Some i)
  then show ?thesis by (simp add: removeFirst_def go_delete_def firstIndex_remove1)
qed


lemma elems_go_append: "sl_elems (go_append sl x) = sl_elems sl @ [x]"
  by (simp add: go_append_def split: list.splits)

section \<open>Basic facts: detaching and closing an activeMerger\<close>

lemma am_Close_empty:
  "sl_elems (am_sources ego) = [] \<Longrightarrow> activeMerger_Close ego = Inr (ego\<lparr>am_closed := True\<rparr>)"
  by (simp add: activeMerger_Close.simps activeMerger_CloseRange.simps)

lemma am_unsetSource_closed: "am_closed ego \<Longrightarrow> activeMerger_unsetSource ego s = Inr ego"
  by (simp add: activeMerger_unsetSource.simps)

lemma am_unsetSource_open:
  assumes "\<not> am_closed ego" and "\<not> am_sourcesLock ego"
  shows "activeMerger_unsetSource ego s =
           Inr (ego\<lparr>am_closed := am_autoclose ego \<and> sl_elems (removeFirst s (am_sources ego)) = [],
                    am_sources := removeFirst s (am_sources ego)\<rparr>)"
proof (cases ego)
  case (fields c srcs a l n)
  with assms show ?thesis
    by (simp add: activeMerger_unsetSource.simps am_Lock_free am_Close_empty am_Unlock_held)
qed

section \<open>Basic facts: polling an activeMerger\<close>

lemma go_rem_nonneg: "0 \<le> a \<Longrightarrow> 0 < b \<Longrightarrow> go_rem a b = Inr (a mod b)"
  by (cases "a = 0") (simp_all add: go_rem_def)

lemma go_index_in_range:
  "0 \<le> i \<Longrightarrow> i < int (length xs) \<Longrightarrow> go_index xs i = Inr (xs ! nat i)"
  by (simp add: go_index_def)

lemma am_round_empty:
  "sl_elems (am_sources ego) = [] \<Longrightarrow> \<not> am_sourcesLock ego \<Longrightarrow>
     activeMerger_Consume_round chs ego = Inr (Broke, chs, ego)"
  by (simp add: activeMerger_Consume_round_def am_Lock_free am_Unlock_held am_lock_idle)

lemma am_round_nonempty:
  assumes "sl_elems (am_sources ego) \<noteq> []" and "\<not> am_sourcesLock ego"
    and "0 \<le> am_nextToReadFrom ego"
  shows "activeMerger_Consume_round chs ego =
           activeMerger_Consume_select chs
             (ego\<lparr>am_sourcesLock := True,
                  am_nextToReadFrom :=
                    (am_nextToReadFrom ego + 1) mod int (length (sl_elems (am_sources ego)))\<rparr>)"
  using assms
  by (simp add: activeMerger_Consume_round_def am_Lock_free go_rem_nonneg)

lemma am_select_cases:
  assumes "am_sourcesLock ego" and "0 \<le> am_nextToReadFrom ego"
    and "am_nextToReadFrom ego < int (length (sl_elems (am_sources ego)))"
  shows "activeMerger_Consume_select chs ego =
     (let src = sl_elems (am_sources ego) ! nat (am_nextToReadFrom ego);
          idle = ego\<lparr>am_sourcesLock := False\<rparr> in
      case ci_chan (chs src) of
        v # vs \<Rightarrow> Inr (Returned v, chs(src := (chs src)\<lparr>ci_chan := vs\<rparr>), idle)
      | [] \<Rightarrow>
          if ci_closed (chs src) then
            (case activeMerger_unsetSource idle src of
               Inl e \<Rightarrow> Inl e
             | Inr ego2 \<Rightarrow> Inr (Continue, chs, ego2))
          else Inr (Continue, chs, idle))"
  using assms
  by (simp add: activeMerger_Consume_select_def go_index_in_range chan_recv_def am_Unlock_held
      Let_def split: list.splits)

lemma am_unsetSource_idle:
  assumes "\<not> am_sourcesLock ego"
  shows "\<exists>ego1. activeMerger_unsetSource ego s = Inr ego1 \<and> \<not> am_sourcesLock ego1
           \<and> am_nextToReadFrom ego1 = am_nextToReadFrom ego
           \<and> am_autoclose ego1 = am_autoclose ego
           \<and> (am_closed ego \<longrightarrow> ego1 = ego)"
proof (cases "am_closed ego")
  case True
  with assms show ?thesis by (simp add: am_unsetSource_closed)
next
  case False
  with assms show ?thesis by (simp add: am_unsetSource_open)
qed

lemma am_round_ok:
  assumes "am_idle ego"
  shows "\<exists>out chs1 ego1. activeMerger_Consume_round chs ego = Inr (out, chs1, ego1) \<and> am_idle ego1"
proof (cases "sl_elems (am_sources ego) = []")
  case True
  with assms show ?thesis by (simp add: am_round_empty am_idle_def)
next
  case False
  let ?n = "int (length (sl_elems (am_sources ego)))"
  let ?c = "(am_nextToReadFrom ego + 1) mod ?n"
  let ?ego1 = "ego\<lparr>am_sourcesLock := True, am_nextToReadFrom := ?c\<rparr>"
  let ?src = "sl_elems (am_sources ego) ! nat ?c"
  let ?idle = "?ego1\<lparr>am_sourcesLock := False\<rparr>"
  from False have n: "0 < ?n" by simp
  then have c: "0 \<le> ?c" "?c < ?n" by simp_all
  have r: "activeMerger_Consume_round chs ego = activeMerger_Consume_select chs ?ego1"
    using False assms by (simp add: am_round_nonempty am_idle_def)
  have idle: "am_idle ?idle" using c by (simp add: am_idle_def)
  obtain ego2 where u: "activeMerger_unsetSource ?idle ?src = Inr ego2" "am_idle ego2"
    using am_unsetSource_idle [of ?idle ?src] idle by (auto simp add: am_idle_def)
  have "\<exists>out chs1 ego1. activeMerger_Consume_select chs ?ego1 = Inr (out, chs1, ego1) \<and> am_idle ego1"
  proof (cases "ci_chan (chs ?src)")
    case Nil
    show ?thesis
    proof (cases "ci_closed (chs ?src)")
      case True
      with Nil c u show ?thesis by (simp add: am_select_cases Let_def)
    next
      case False
      with Nil c idle show ?thesis by (simp add: am_select_cases Let_def)
    qed
  next
    case (Cons v vs)
    with c idle show ?thesis by (simp add: am_select_cases Let_def)
  qed
  with r show ?thesis by simp
qed

lemma am_loop_ok:
  "am_idle ego \<Longrightarrow> activeMerger_Consume_loop fuel chs ego = Some res \<Longrightarrow>
     \<exists>out chs1 ego1. res = Inr (out, chs1, ego1) \<and> am_idle ego1"
proof (induction fuel arbitrary: chs ego)
  case 0
  then show ?case by simp
next
  case (Suc fuel)
  obtain out chs1 ego1 where
    r: "activeMerger_Consume_round chs ego = Inr (out, chs1, ego1)" and i: "am_idle ego1"
    using am_round_ok [OF Suc.prems(1)] by blast
  show ?case
  proof (cases out)
    case Continue
    with r Suc.prems(2) have "activeMerger_Consume_loop fuel chs1 ego1 = Some res" by simp
    with Suc.IH i show ?thesis by blast
  next
    case (Returned v)
    with r Suc.prems(2) have "res = Inr (out, chs1, ego1)" by simp
    with i show ?thesis by blast
  next
    case Broke
    with r Suc.prems(2) have "res = Inr (out, chs1, ego1)" by simp
    with i show ?thesis by blast
  qed
qed

lemma am_round_Broke:
  "activeMerger_Consume_round chs ego = Inr (Broke, chs1, ego1) \<Longrightarrow>
     sl_elems (am_sources ego1) = [] \<and> chs1 = chs"
  by (auto simp add: activeMerger_Consume_round_def activeMerger_Consume_select_def
      am_Lock_def am_Unlock_def split: sum.splits if_splits prod.splits recv.splits)

lemma am_loop_Broke:
  "activeMerger_Consume_loop fuel chs ego = Some (Inr (Broke, chs1, ego1)) \<Longrightarrow>
     sl_elems (am_sources ego1) = []"
proof (induction fuel arbitrary: chs ego)
  case 0
  then show ?case by simp
next
  case (Suc fuel)
  then show ?case
    by (auto split: sum.splits prod.splits pollOutcome.splits dest: am_round_Broke)
qed

lemma am_loop_empty:
  "sl_elems (am_sources ego) = [] \<Longrightarrow> \<not> am_sourcesLock ego \<Longrightarrow>
     activeMerger_Consume_loop (Suc fuel) chs ego = Some (Inr (Broke, chs, ego))"
  by (simp add: am_round_empty)

lemma am_round_single_ready:
  assumes "sl_elems (am_sources ego) = [c]" and "\<not> am_sourcesLock ego"
    and "ci_chan (chs c) = v # vs"
  shows "activeMerger_Consume_round chs ego =
           Inr (Returned v, chs(c := (chs c)\<lparr>ci_chan := vs\<rparr>), ego\<lparr>am_nextToReadFrom := 0\<rparr>)"
proof (cases ego)
  case (fields cl srcs a l n)
  with assms show ?thesis
    by (simp add: activeMerger_Consume_round_def am_Lock_free go_rem_def
        activeMerger_Consume_select_def go_index_def chan_recv_def am_Unlock_held)
qed

lemma am_Consume_single_ready:
  assumes "sl_elems (am_sources ego) = [c]" and "\<not> am_sourcesLock ego"
    and "ci_chan (chs c) = v # vs"
  shows "activeMerger_Consume (Suc fuel) chs ego =
           Some (Inr ((v, True, None), chs(c := (chs c)\<lparr>ci_chan := vs\<rparr>),
                      ego\<lparr>am_nextToReadFrom := 0\<rparr>))"
  using assms by (simp add: activeMerger_Consume_def am_round_single_ready)

lemma am_Consume_starved:
  assumes "\<not> am_closed ego" and "\<not> am_sourcesLock ego" and "sl_elems (am_sources ego) = []"
  shows "activeMerger_Consume (Suc fuel) chs ego =
     Some (Inr ((0, True,
       Some ''no sources attached yet or all sources were unset and autoclose is not active''),
       chs, ego))"
  using assms by (simp add: activeMerger_Consume_def am_round_empty)

section \<open>Basic facts: closing an activeMerger\<close>

lemma am_closed_idle: "am_closed ego \<Longrightarrow> ego\<lparr>am_closed := True\<rparr> = ego"
  by (cases ego) simp

lemma am_CloseRange_closed:
  assumes "am_closed ego" and "n \<le> length (sl_backing (am_sources ego))"
  shows "activeMerger_CloseRange i n ego = Inr ego"
  using assms
proof (induction "n - i" arbitrary: i)
  case 0
  then show ?case by (simp add: activeMerger_CloseRange.simps)
next
  case (Suc d)
  then have i: "i < n" and d: "d = n - Suc i" by simp_all
  from i Suc.prems(2) have "int i < int (length (sl_backing (am_sources ego)))" by simp
  then have g: "go_index (sl_backing (am_sources ego)) (int i)
                  = Inr (sl_backing (am_sources ego) ! i)"
    by (simp add: go_index_def)
  have "activeMerger_CloseRange (Suc i) n ego = Inr ego"
    using d Suc.prems by (intro Suc.hyps(1)) simp_all
  with i g Suc.prems(1) show ?case
    by (subst activeMerger_CloseRange.simps) (simp add: am_unsetSource_closed)
qed



lemma am_Close_closed:
  assumes "am_closed ego"
  shows "activeMerger_Close ego = Inr ego"
proof -
  have "length (sl_elems (am_sources ego)) \<le> length (sl_backing (am_sources ego))"
    by (simp add: sl_backing_def)
  with assms have "activeMerger_CloseRange 0 (length (sl_elems (am_sources ego))) ego = Inr ego"
    by (rule am_CloseRange_closed)
  with assms show ?thesis
    by (simp add: activeMerger_Close.simps am_closed_idle)
qed


lemma removeFirst_single: "sl_elems sl = [s] \<Longrightarrow> sl_elems (removeFirst s sl) = []"
  by (simp add: elems_removeFirst)

lemma am_SetSource_open:
  assumes "\<not> am_closed ego" and "\<not> am_sourcesLock ego"
  shows "activeMerger_SetSource ego p chp =
           Inr (None, ego\<lparr>am_sources := go_append (am_sources ego)
                                 (case p of Channeled c \<Rightarrow> c | Plain q \<Rightarrow> chp)\<rparr>)"
proof (cases ego)
  case (fields cl srcs au l n)
  with assms show ?thesis
    by (cases p) (simp_all add: activeMerger_SetSource_def am_Lock_free am_Unlock_held)
qed

section \<open>Basic facts: channeledLazyMerger\<close>

lemma lm_Consume_buffered:
  "ci_chan (lm_input ego) = v # vs \<Longrightarrow>
     channeledLazyMerger_Consume ego =
       Some (Inr ((v, True, None), ego\<lparr>lm_input := (lm_input ego)\<lparr>ci_chan := vs\<rparr>\<rparr>))"
  by (simp add: channeledLazyMerger_Consume_def chan_recv_def)

lemma lm_Consume_overflow:
  assumes "ci_chan (lm_input ego) = []" and "lm_Closed ego"
    and "lm_overflowBuffer ego = v # vs" and "\<not> lm_overflowBufferLock ego"
  shows "channeledLazyMerger_Consume ego =
           Some (Inr ((v, True, None), ego\<lparr>lm_overflowBuffer := vs\<rparr>))"
proof (cases ego)
  case (fields inp srcs au ov l ol)
  with assms show ?thesis
    by (simp add: channeledLazyMerger_Consume_def chan_recv_def lm_Closed_def
        lm_overflowLock_free go_index_def lm_overflowUnlock_held)
qed

lemma lm_Consume_exhausted:
  assumes "ci_chan (lm_input ego) = []" and "lm_Closed ego" and "lm_overflowBuffer ego = []"
  shows "channeledLazyMerger_Consume ego = Some (Inr ((0, False, None), ego))"
  using assms by (simp add: channeledLazyMerger_Consume_def chan_recv_def lm_Closed_def)

lemma lm_Consume_waits:
  assumes "ci_chan (lm_input ego) = []" and "\<not> lm_Closed ego"
  shows "channeledLazyMerger_Consume ego = None"
  using assms by (simp add: channeledLazyMerger_Consume_def chan_recv_def lm_Closed_def)

lemma lm_Consume_invalid:
  assumes "channeledLazyMerger_Consume ego = Some (Inr ((v, False, e), ego1))"
  shows "ci_chan (lm_input ego) = [] \<and> lm_Closed ego \<and> lm_overflowBuffer ego = []"
  using assms
  by (auto simp add: channeledLazyMerger_Consume_def chan_recv_def lm_Closed_def
      split: list.splits if_splits sum.splits)

lemma lm_Gets_overflow:
  assumes "ci_chan (lm_input ego) = []" and "lm_Closed ego" and "\<not> lm_overflowBufferLock ego"
  shows "channeledLazyMerger_Gets (Suc (length (lm_overflowBuffer ego))) ego =
           Some (Inr (map (\<lambda>v. (v, True, None)) (lm_overflowBuffer ego) @ [(0, False, None)],
                      ego\<lparr>lm_overflowBuffer := []\<rparr>))"
  using assms
proof (induction "lm_overflowBuffer ego" arbitrary: ego)
  case Nil
  then have "ego\<lparr>lm_overflowBuffer := []\<rparr> = ego" by (cases ego) simp
  with Nil show ?case
    by (simp add: channeledLazyMerger_Get_def lm_Consume_exhausted)
next
  case (Cons v vs)
  let ?ego1 = "ego\<lparr>lm_overflowBuffer := vs\<rparr>"
  have c: "channeledLazyMerger_Consume ego = Some (Inr ((v, True, None), ?ego1))"
    using Cons.prems Cons.hyps(2) by (simp add: lm_Consume_overflow)
  have "channeledLazyMerger_Gets (Suc (length (lm_overflowBuffer ?ego1))) ?ego1 =
           Some (Inr (map (\<lambda>v. (v, True, None)) (lm_overflowBuffer ?ego1) @ [(0, False, None)],
                      ?ego1\<lparr>lm_overflowBuffer := []\<rparr>))"
    using Cons.prems by (intro Cons.hyps(1)) (simp_all add: lm_Closed_def)
  then have "channeledLazyMerger_Gets (Suc (length vs)) ?ego1 =
           Some (Inr (map (\<lambda>v. (v, True, None)) vs @ [(0, False, None)],
                      ego\<lparr>lm_overflowBuffer := []\<rparr>))"
    by simp
  with c Cons.hyps(2) [symmetric] show ?case
    by (simp add: channeledLazyMerger_Get_def)
qed

lemma lm_Gets_all:
  assumes "lm_Closed ego" and "\<not> lm_overflowBufferLock ego"
  shows "channeledLazyMerger_Gets
           (Suc (length (ci_chan (lm_input ego)) + length (lm_overflowBuffer ego))) ego =
           Some (Inr (map (\<lambda>v. (v, True, None)) (ci_chan (lm_input ego) @ lm_overflowBuffer ego)
                        @ [(0, False, None)],
                      ego\<lparr>lm_input := (lm_input ego)\<lparr>ci_chan := []\<rparr>, lm_overflowBuffer := []\<rparr>))"
  using assms
proof (induction "ci_chan (lm_input ego)" arbitrary: ego)
  case Nil
  then have "ego\<lparr>lm_input := (lm_input ego)\<lparr>ci_chan := []\<rparr>\<rparr> = ego" by (cases ego) simp
  then have "ego\<lparr>lm_input := (lm_input ego)\<lparr>ci_chan := []\<rparr>, lm_overflowBuffer := []\<rparr>
               = ego\<lparr>lm_overflowBuffer := []\<rparr>" by simp
  with Nil lm_Gets_overflow [of ego] show ?case by simp
next
  case (Cons v vs)
  let ?ego1 = "ego\<lparr>lm_input := (lm_input ego)\<lparr>ci_chan := vs\<rparr>\<rparr>"
  have c: "channeledLazyMerger_Consume ego = Some (Inr ((v, True, None), ?ego1))"
    using Cons.hyps(2) by (simp add: lm_Consume_buffered)
  have "channeledLazyMerger_Gets
           (Suc (length (ci_chan (lm_input ?ego1)) + length (lm_overflowBuffer ?ego1))) ?ego1 =
           Some (Inr (map (\<lambda>v. (v, True, None)) (ci_chan (lm_input ?ego1) @ lm_overflowBuffer ?ego1)
                        @ [(0, False, None)],
                      ?ego1\<lparr>lm_input := (lm_input ?ego1)\<lparr>ci_chan := []\<rparr>, lm_overflowBuffer := []\<rparr>))"
    using Cons.prems by (intro Cons.hyps(1)) (simp_all add: lm_Closed_def)
  then have "channeledLazyMerger_Gets (Suc (length vs + length (lm_overflowBuffer ego))) ?ego1 =
           Some (Inr (map (\<lambda>v. (v, True, None)) (vs @ lm_overflowBuffer ego) @ [(0, False, None)],
                      ego\<lparr>lm_input := (lm_input ego)\<lparr>ci_chan := []\<rparr>, lm_overflowBuffer := []\<rparr>))"
    by simp
  with c Cons.hyps(2) [symmetric] show ?case
    by (simp add: channeledLazyMerger_Get_def)
qed

lemma ChanneledInput_Close_closed: "ci_closed c \<Longrightarrow> ChanneledInput_Close c = c"
  by (cases c) (simp add: ChanneledInput_Close_def)

lemma lm_unsetSource_closed:
  "lm_Closed ego \<Longrightarrow> channeledLazyMerger_unsetSource (Suc fuel) ego s = Some (Inr ego)"
  by simp

lemma lm_Close_loop_empty:
  "sl_elems (lm_sources ego) = [] \<Longrightarrow> channeledLazyMerger_Close_loop (Suc fuel) ego = Some (Inr ego)"
  by simp

lemma lm_Close_empty:
  assumes "sl_elems (lm_sources ego) = []" and "\<not> lm_sourcesLock ego"
  shows "channeledLazyMerger_Close (Suc (Suc fuel)) ego =
           Some (Inr (ego\<lparr>lm_input := ChanneledInput_Close (lm_input ego)\<rparr>))"
proof (cases ego)
  case (fields inp srcs au ov l ol)
  with assms show ?thesis
    by (simp add: lm_Lock_free lm_Unlock_held)
qed

lemma lm_unsetSource_open:
  assumes "\<not> lm_Closed ego" and "\<not> lm_sourcesLock ego"
  shows "channeledLazyMerger_unsetSource (Suc (Suc (Suc fuel))) ego s =
           Some (Inr (ego\<lparr>lm_sources := removeFirst s (lm_sources ego),
                          lm_input := (if lm_autoclose ego
                                          \<and> sl_elems (removeFirst s (lm_sources ego)) = []
                                       then ChanneledInput_Close (lm_input ego)
                                       else lm_input ego)\<rparr>))"
proof (cases ego)
  case (fields inp srcs au ov l ol)
  with assms show ?thesis
    by (simp add: lm_Lock_free lm_Unlock_held lm_Close_empty del: channeledLazyMerger_Close.simps)
qed




lemma lm_Close_again:
  assumes "\<not> lm_sourcesLock ego" and "lm_Closed ego" and "sl_elems (lm_sources ego) = []"
  shows "channeledLazyMerger_Close (Suc (Suc fuel)) ego = Some (Inr ego)"
proof -
  have "ego\<lparr>lm_input := ChanneledInput_Close (lm_input ego)\<rparr> = ego"
    using assms(2) by (simp add: lm_Closed_def ChanneledInput_Close_closed)
  with assms show ?thesis
    using lm_Close_empty [of ego fuel] by simp
qed

text \<open>A closed merger that still has a source: the loop of \<open>Close\<close> never ends.\<close>

lemma lm_Close_loop_stuck:
  assumes "lm_Closed ego" and "sl_elems (lm_sources ego) \<noteq> []" and "lm_sourcesLock ego"
  shows "channeledLazyMerger_Close_loop fuel ego = None"
  using assms
proof (induction fuel arbitrary: ego rule: less_induct)
  case (less fuel)
  show ?case
  proof (cases fuel)
    case 0
    then show ?thesis by simp
  next
    case (Suc f)
    obtain x xs where xs: "sl_elems (lm_sources ego) = x # xs"
      using less.prems(2) by (cases "sl_elems (lm_sources ego)") auto
    let ?ego1 = "ego\<lparr>lm_sourcesLock := False\<rparr>"
    have c1: "lm_Closed ?ego1" using less.prems(1) by (simp add: lm_Closed_def)
    show ?thesis
    proof (cases f)
      case 0
      with Suc xs less.prems(3) show ?thesis
        by (simp add: go_index_def lm_Unlock_held)
    next
      case (Suc g)
      have u: "channeledLazyMerger_unsetSource f ?ego1 x = Some (Inr ?ego1)"
        unfolding Suc using c1 by (rule lm_unsetSource_closed)
      have "ego\<lparr>lm_sourcesLock := True\<rparr> = ego" using less.prems(3) by (cases ego) simp
      then have l: "lm_Lock ?ego1 = Inr ego" by (simp add: lm_Lock_free)
      have "channeledLazyMerger_Close_loop f ego = None"
        using less.prems \<open>fuel = Suc f\<close> by (intro less.IH) simp_all
      with xs less.prems(3) u l \<open>fuel = Suc f\<close> show ?thesis
        by (simp add: go_index_def lm_Unlock_held
            del: channeledLazyMerger_unsetSource.simps channeledLazyMerger_Close_loop.simps(2))
           (simp add: channeledLazyMerger_Close_loop.simps(2) go_index_def lm_Unlock_held
            del: channeledLazyMerger_unsetSource.simps)
    qed
  qed
qed

text \<open>
  Calls made one after the other keep a closed lazy merger's registry empty: the new
  merger is open, and each call that returns gives a merger that is open or has no
  source.
\<close>

lemma lm_closed_empty_New:
  "\<not> lm_Closed (NewChanneledLazyMerger capacity autoclose)"
  by (simp add: NewChanneledLazyMerger_def lm_Closed_def NewChanneledInput_def)

lemma lm_closed_empty_SetSource:
  assumes "lm_Closed ego \<longrightarrow> sl_elems (lm_sources ego) = []"
    and "channeledLazyMerger_SetSource ego s = Inr (r, ego1)"
  shows "lm_Closed ego1 \<longrightarrow> sl_elems (lm_sources ego1) = []"
  using assms
  by (auto simp add: channeledLazyMerger_SetSource_def lm_Lock_def lm_Unlock_def lm_Closed_def
      mutex_Lock_def mutex_Unlock_def split: sum.splits if_splits)

lemma lm_closed_empty_unsetSource:
  assumes "lm_Closed ego \<longrightarrow> sl_elems (lm_sources ego) = []" and "\<not> lm_sourcesLock ego"
    and "channeledLazyMerger_unsetSource (Suc (Suc (Suc fuel))) ego s = Some (Inr ego1)"
  shows "lm_Closed ego1 \<longrightarrow> sl_elems (lm_sources ego1) = []"
proof (cases "lm_Closed ego")
  case True
  with assms(3) lm_unsetSource_closed [of ego "Suc (Suc fuel)" s] have "ego1 = ego"
    by (simp del: channeledLazyMerger_unsetSource.simps)
  with assms(1) show ?thesis by simp
next
  case False
  with assms(2,3) lm_unsetSource_open [of ego fuel s]
  have "ego1 = ego\<lparr>lm_sources := removeFirst s (lm_sources ego),
                   lm_input := (if lm_autoclose ego
                                   \<and> sl_elems (removeFirst s (lm_sources ego)) = []
                                then ChanneledInput_Close (lm_input ego)
                                else lm_input ego)\<rparr>"
    by (simp del: channeledLazyMerger_unsetSource.simps)
  with False show ?thesis by (simp add: lm_Closed_def)
qed

lemma lm_closed_empty_Consume:
  assumes "lm_Closed ego \<longrightarrow> sl_elems (lm_sources ego) = []"
    and "channeledLazyMerger_Consume ego = Some (Inr (g, ego1))"
  shows "lm_Closed ego1 \<longrightarrow> sl_elems (lm_sources ego1) = []"
  using assms
  by (auto simp add: channeledLazyMerger_Consume_def chan_recv_def lm_Closed_def
      lm_overflowLock_def lm_overflowUnlock_def mutex_Lock_def mutex_Unlock_def
      split: list.splits if_splits sum.splits)

lemma lm_SetSource_open:
  assumes "\<not> lm_Closed ego" and "\<not> lm_sourcesLock ego"
  shows "channeledLazyMerger_SetSource ego s =
           Inr (None, ego\<lparr>lm_sources := go_append (lm_sources ego) s\<rparr>)"
proof (cases ego)
  case (fields inp srcs au ov l ol)
  with assms show ?thesis
    by (simp add: channeledLazyMerger_SetSource_def lm_Lock_free lm_Unlock_held lm_Closed_def)
qed


section \<open>Basic facts: multiplexer\<close>

lemma mx_writeAll_open:
  assumes "\<And>output v. \<not> ci_closed output \<Longrightarrow> wr output v = Inr (output\<lparr>ci_chan := ci_chan output @ [v]\<rparr>)"
    and "\<forall>output \<in> set outs. \<not> ci_closed output"
  shows "multiplexer_writeAll wr outs v =
           (None, map (\<lambda>output. output\<lparr>ci_chan := ci_chan output @ [v]\<rparr>) outs)"
  using assms(2)
proof (induction outs)
  case Nil
  then show ?case by simp
next
  case (Cons out rest)
  then show ?case by (simp add: assms(1))
qed

lemma mx_writeAll_stops:
  assumes "\<And>out v. \<not> ci_closed out \<Longrightarrow> wr out v = Inr (out\<lparr>ci_chan := ci_chan out @ [v]\<rparr>)"
    and "\<forall>out \<in> set pre. \<not> ci_closed out" and "wr bad v = Inl e"
  shows "multiplexer_writeAll wr (pre @ bad # post) v =
           (Some e, map (\<lambda>out. out\<lparr>ci_chan := ci_chan out @ [v]\<rparr>) pre @ bad # post)"
  using assms(2)
proof (induction pre)
  case Nil
  with assms(3) show ?case by simp
next
  case (Cons out rest)
  then show ?case by (simp add: assms(1))
qed

lemma mx_loop_broadcast:
  assumes "\<And>output v. \<not> ci_closed output \<Longrightarrow> wr output v = Inr (output\<lparr>ci_chan := ci_chan output @ [v]\<rparr>)"
    and "\<forall>output \<in> set outs. \<not> ci_closed output"
    and "err \<noteq> None \<or> \<not> valid"
  shows "multiplexer_pipeData_loop wr (map (\<lambda>v. Answer v True None) vs @ Answer x valid err # rest) outs =
           Some (None, map (\<lambda>output. output\<lparr>ci_chan := ci_chan output @ vs\<rparr>) outs)"
  using assms(2)
proof (induction vs arbitrary: outs)
  case Nil
  have "map (\<lambda>output. output\<lparr>ci_chan := ci_chan output\<rparr>) outs = outs"
    by (induction outs) simp_all
  with assms(3) show ?case by auto
next
  case (Cons v vs)
  let ?outs1 = "map (\<lambda>output. output\<lparr>ci_chan := ci_chan output @ [v]\<rparr>) outs"
  have w: "multiplexer_writeAll wr outs v = (None, ?outs1)"
    using assms(1) Cons.prems by (rule mx_writeAll_open)
  have "\<forall>output \<in> set ?outs1. \<not> ci_closed output" using Cons.prems by simp
  then have "multiplexer_pipeData_loop wr
               (map (\<lambda>v. Answer v True None) vs @ Answer x valid err # rest) ?outs1 =
             Some (None, map (\<lambda>output. output\<lparr>ci_chan := ci_chan output @ vs\<rparr>) ?outs1)"
    by (rule Cons.IH)
  with w show ?case by (simp add: comp_def)
qed

lemma mx_deferred_upto:
  "k \<le> length outs \<Longrightarrow>
     fold (\<lambda>i os. os[i := ChanneledInput_Close (os ! i)]) (rev [0..<k]) outs =
       map ChanneledInput_Close (take k outs) @ drop k outs"
proof (induction k arbitrary: outs)
  case 0
  then show ?case by simp
next
  case (Suc k)
  let ?outs1 = "outs[k := ChanneledInput_Close (outs ! k)]"
  from Suc.prems have k: "k < length outs" by simp
  then have "fold (\<lambda>i os. os[i := ChanneledInput_Close (os ! i)]) (rev [0..<k]) ?outs1 =
       map ChanneledInput_Close (take k ?outs1) @ drop k ?outs1"
    by (intro Suc.IH) simp
  also have "take k ?outs1 = take k outs" by simp
  also have "drop k ?outs1 = ChanneledInput_Close (outs ! k) # drop (Suc k) outs"
    using k by (simp add: drop_update_swap Cons_nth_drop_Suc [symmetric])
  finally show ?case using k by (simp add: take_Suc_conv_app_nth)
qed

lemma mx_deferred: "multiplexer_deferred outs = map ChanneledInput_Close outs"
  by (simp add: multiplexer_deferred_def mx_deferred_upto)

lemma mx_writeAll_length: "length (snd (multiplexer_writeAll wr outs v)) = length outs"
  by (induction outs) (auto split: sum.splits prod.splits)

lemma mx_loop_length:
  "multiplexer_pipeData_loop wr ups outs = Some (ex, outs1) \<Longrightarrow> length outs1 = length outs"
proof (induction wr ups outs rule: multiplexer_pipeData_loop.induct)
  case (1 wr outs)
  then show ?case by simp
next
  case (2 wr ups outs)
  then show ?case by simp
next
  case (3 wr v valid err ups outs)
  show ?case
  proof (cases "err \<noteq> None \<or> \<not> valid")
    case True
    with 3 show ?thesis by simp
  next
    case False
    obtain r outs2 where w: "multiplexer_writeAll wr outs v = (r, outs2)" by fastforce
    then have l: "length outs2 = length outs" using mx_writeAll_length [of wr outs v] by simp
    show ?thesis
    proof (cases r)
      case None
      with False w 3 l show ?thesis by simp
    next
      case (Some e)
      with False w 3 l show ?thesis by simp
    qed
  qed
qed

section \<open>Attaching to a closed merger\<close>

text \<open>
  C5. \<open>SetSource\<close> on a merger that is already closed returns the error "the stream is
  already closed" at once and gives the merger back as it was: the registry, like every
  other field, is unchanged. The lazy merger takes the registry lock before it looks at
  the flag, so its lock has to be free.
\<close>

theorem SetSource_on_closed:
  "(am_closed a \<longrightarrow>
      activeMerger_SetSource a s chp = Inr (Some ''the stream is already closed'', a))
   \<and> (lm_Closed l \<and> \<not> lm_sourcesLock l \<longrightarrow>
      channeledLazyMerger_SetSource l r = Inr (Some ''the stream is already closed'', l))"
  by (simp add: activeMerger_SetSource_def channeledLazyMerger_SetSource_def lm_Lock_free
      lm_Unlock_held lm_Closed_def lm_lock_idle)

theorem SetSource_on_closed_witness:
  "am_closed ((NewActiveMerger True)\<lparr>am_closed := True\<rparr>)
   \<and> activeMerger_SetSource ((NewActiveMerger True)\<lparr>am_closed := True\<rparr>) (Plain 4) 9
       = Inr (Some ''the stream is already closed'', (NewActiveMerger True)\<lparr>am_closed := True\<rparr>)
   \<and> lm_Closed ((NewChanneledLazyMerger 2 False :: nat channeledLazyMerger)
                   \<lparr>lm_input := ChanneledInput_Close NewChanneledInput\<rparr>)
   \<and> \<not> lm_sourcesLock ((NewChanneledLazyMerger 2 False :: nat channeledLazyMerger)
                   \<lparr>lm_input := ChanneledInput_Close NewChanneledInput\<rparr>)
   \<and> channeledLazyMerger_SetSource ((NewChanneledLazyMerger 2 False :: nat channeledLazyMerger)
                   \<lparr>lm_input := ChanneledInput_Close NewChanneledInput\<rparr>) 4
       = Inr (Some ''the stream is already closed'',
              (NewChanneledLazyMerger 2 False)\<lparr>lm_input := ChanneledInput_Close NewChanneledInput\<rparr>)"
  using SetSource_on_closed [of "(NewActiveMerger True)\<lparr>am_closed := True\<rparr>" "Plain 4" 9
      "(NewChanneledLazyMerger 2 False :: nat channeledLazyMerger)
         \<lparr>lm_input := ChanneledInput_Close NewChanneledInput\<rparr>" 4]
  by (simp add: NewActiveMerger_def NewChanneledLazyMerger_def lm_Closed_def
      ChanneledInput_Close_def NewChanneledInput_def)

section \<open>The outputs of the multiplexer\<close>

text \<open>
  C9. For every multiplexer, whatever its outputs hold, \<open>Out(index)\<close> returns the
  output at position \<open>index\<close> when \<open>0 \<le> index\<close> and \<open>index\<close> is below the number of
  outputs, and outside that range it fails with the index-out-of-range panic and
  returns nothing. A multiplexer made with \<open>branches\<close> branches has that many outputs,
  so for it the range is \<open>0 \<le> index < branches\<close>.
\<close>

theorem multiplexer_Out_in_range:
  "(0 \<le> index \<and> index < int (length (mx_outputs m)) \<longrightarrow>
      multiplexer_Out m index = Inr (mx_outputs m ! nat index))
   \<and> (\<not> (0 \<le> index \<and> index < int (length (mx_outputs m))) \<longrightarrow>
      multiplexer_Out m index = Inl IndexOutOfRange)
   \<and> (NewMultiplexer capacity branches = Inr m2 \<longrightarrow>
      length (mx_outputs m2) = nat branches
      \<and> (0 \<le> index \<and> index < branches \<longrightarrow>
           multiplexer_Out m2 index = Inr (mx_outputs m2 ! nat index))
      \<and> (\<not> (0 \<le> index \<and> index < branches) \<longrightarrow>
           multiplexer_Out m2 index = Inl IndexOutOfRange))"
proof (intro conjI impI)
  assume "0 \<le> index \<and> index < int (length (mx_outputs m))"
  then show "multiplexer_Out m index = Inr (mx_outputs m ! nat index)"
    by (simp add: multiplexer_Out_def go_index_def)
next
  assume "\<not> (0 \<le> index \<and> index < int (length (mx_outputs m)))"
  then show "multiplexer_Out m index = Inl IndexOutOfRange"
    by (simp add: multiplexer_Out_def go_index_def)
next
  assume n: "NewMultiplexer capacity branches = Inr m2"
  then show "length (mx_outputs m2) = nat branches"
    by (auto simp add: NewMultiplexer_def split: if_splits)
next
  assume n: "NewMultiplexer capacity branches = Inr m2"
    and "0 \<le> index \<and> index < branches"
  then show "multiplexer_Out m2 index = Inr (mx_outputs m2 ! nat index)"
    by (auto simp add: NewMultiplexer_def multiplexer_Out_def go_index_def split: if_splits)
next
  assume n: "NewMultiplexer capacity branches = Inr m2"
    and "\<not> (0 \<le> index \<and> index < branches)"
  then show "multiplexer_Out m2 index = Inl IndexOutOfRange"
    by (auto simp add: NewMultiplexer_def multiplexer_Out_def go_index_def split: if_splits)
qed

theorem multiplexer_Out_in_range_witness:
  "multiplexer_Out
      \<lparr>mx_outputs = [\<lparr>ci_chan = [1 :: nat], ci_closed = False\<rparr>,
                      \<lparr>ci_chan = [2], ci_closed = False\<rparr>,
                      \<lparr>ci_chan = [3], ci_closed = True\<rparr>]\<rparr> 1
      = Inr \<lparr>ci_chan = [2], ci_closed = False\<rparr>
   \<and> multiplexer_Out
      \<lparr>mx_outputs = [\<lparr>ci_chan = [1 :: nat], ci_closed = False\<rparr>,
                      \<lparr>ci_chan = [2], ci_closed = False\<rparr>,
                      \<lparr>ci_chan = [3], ci_closed = True\<rparr>]\<rparr> 2
      = Inr \<lparr>ci_chan = [3], ci_closed = True\<rparr>
   \<and> multiplexer_Out
      \<lparr>mx_outputs = [\<lparr>ci_chan = [1 :: nat], ci_closed = False\<rparr>,
                      \<lparr>ci_chan = [2], ci_closed = False\<rparr>,
                      \<lparr>ci_chan = [3], ci_closed = True\<rparr>]\<rparr> 3
      = Inl IndexOutOfRange
   \<and> multiplexer_Out
      \<lparr>mx_outputs = [\<lparr>ci_chan = [1 :: nat], ci_closed = False\<rparr>,
                      \<lparr>ci_chan = [2], ci_closed = False\<rparr>,
                      \<lparr>ci_chan = [3], ci_closed = True\<rparr>]\<rparr> (- 1)
      = Inl IndexOutOfRange
   \<and> NewMultiplexer 1 3 = Inr \<lparr>mx_outputs = replicate 3 (NewChanneledInput :: nat channeledInput)\<rparr>
   \<and> multiplexer_Out \<lparr>mx_outputs = replicate 3 (NewChanneledInput :: nat channeledInput)\<rparr> 2
        = Inr NewChanneledInput
   \<and> multiplexer_Out \<lparr>mx_outputs = replicate 3 (NewChanneledInput :: nat channeledInput)\<rparr> 3
        = Inl IndexOutOfRange"
proof -
  let ?m = "\<lparr>mx_outputs = [\<lparr>ci_chan = [1 :: nat], ci_closed = False\<rparr>,
                      \<lparr>ci_chan = [2], ci_closed = False\<rparr>,
                      \<lparr>ci_chan = [3], ci_closed = True\<rparr>]\<rparr>"
  let ?m2 = "\<lparr>mx_outputs = replicate 3 (NewChanneledInput :: nat channeledInput)\<rparr>"
  have h: "NewMultiplexer 1 3 = Inr ?m2"
    by (simp add: NewMultiplexer_def)
  have a: "multiplexer_Out ?m 1 = Inr \<lparr>ci_chan = [2], ci_closed = False\<rparr>"
    using multiplexer_Out_in_range [of 1 ?m 1 3 ?m2] by simp
  have b: "multiplexer_Out ?m 2 = Inr \<lparr>ci_chan = [3], ci_closed = True\<rparr>"
    using multiplexer_Out_in_range [of 2 ?m 1 3 ?m2] by simp
  have c: "multiplexer_Out ?m 3 = Inl IndexOutOfRange"
    using multiplexer_Out_in_range [of 3 ?m 1 3 ?m2] by simp
  have d: "multiplexer_Out ?m (- 1) = Inl IndexOutOfRange"
    using multiplexer_Out_in_range [of "- 1" ?m 1 3 ?m2] by simp
  have e: "multiplexer_Out ?m2 2 = Inr NewChanneledInput"
    using h multiplexer_Out_in_range [of 2 ?m 1 3 ?m2] by simp
  have f: "multiplexer_Out ?m2 3 = Inl IndexOutOfRange"
    using h multiplexer_Out_in_range [of 3 ?m 1 3 ?m2] by simp
  from a b c d e f h show ?thesis by simp
qed

section \<open>The polling loop of activeMerger.Consume\<close>

text \<open>
  C4. When the polling loop of \<open>activeMerger.Consume\<close> is left by its \<open>break\<close>, the
  registry is empty, and \<open>Consume\<close> returns end-of-stream (the zero value, valid = false,
  no error) if the merger is closed, and the error "no sources attached yet ..." if it is
  not. With an empty registry and a free lock the loop is left at once. The error is
  not a shutdown: the merger is still open, \<open>SetSource\<close> succeeds on it, and the next
  \<open>Consume\<close> delivers the value that the new source has ready.
\<close>

theorem Consume_after_break:
  "(activeMerger_Consume_loop fuel chs ego = Some (Inr (Broke, chs1, ego1)) \<longrightarrow>
      sl_elems (am_sources ego1) = []
      \<and> activeMerger_Consume fuel chs ego =
          Some (Inr (if am_closed ego1 then (0, False, None)
                     else (0, True,
                       Some ''no sources attached yet or all sources were unset and autoclose is not active''),
                     chs1, ego1)))
   \<and> (sl_elems (am_sources ego) = [] \<and> \<not> am_sourcesLock ego \<longrightarrow>
        activeMerger_Consume_loop (Suc fuel) chs ego = Some (Inr (Broke, chs, ego)))
   \<and> (sl_elems (am_sources ego) = [] \<and> \<not> am_sourcesLock ego \<and> \<not> am_closed ego \<longrightarrow>
        (\<exists>ego2. activeMerger_SetSource ego (Channeled c) chp = Inr (None, ego2)
           \<and> sl_elems (am_sources ego2) = [c] \<and> \<not> am_closed ego2
           \<and> (ci_chan (chs c) = v # vs \<longrightarrow>
                activeMerger_Consume (Suc fuel) chs ego2 =
                  Some (Inr ((v, True, None), chs(c := (chs c)\<lparr>ci_chan := vs\<rparr>),
                             ego2\<lparr>am_nextToReadFrom := 0\<rparr>)))))"
proof (intro conjI impI)
  assume b: "activeMerger_Consume_loop fuel chs ego = Some (Inr (Broke, chs1, ego1))"
  then show "sl_elems (am_sources ego1) = []" by (rule am_loop_Broke)
  from b show "activeMerger_Consume fuel chs ego =
          Some (Inr (if am_closed ego1 then (0, False, None)
                     else (0, True,
                       Some ''no sources attached yet or all sources were unset and autoclose is not active''),
                     chs1, ego1))"
    by (simp add: activeMerger_Consume_def)
next
  assume "sl_elems (am_sources ego) = [] \<and> \<not> am_sourcesLock ego"
  then have "sl_elems (am_sources ego) = []" and "\<not> am_sourcesLock ego" by simp_all
  then show "activeMerger_Consume_loop (Suc fuel) chs ego = Some (Inr (Broke, chs, ego))"
    by (rule am_loop_empty)
next
  assume a: "sl_elems (am_sources ego) = [] \<and> \<not> am_sourcesLock ego \<and> \<not> am_closed ego"
  let ?ego2 = "ego\<lparr>am_sources := go_append (am_sources ego) c\<rparr>"
  have s: "activeMerger_SetSource ego (Channeled c) chp = Inr (None, ?ego2)"
  proof (cases ego)
    case (fields cl srcs au l n)
    with a show ?thesis
      by (simp add: activeMerger_SetSource_def am_Lock_free am_Unlock_held)
  qed
  have e: "sl_elems (am_sources ?ego2) = [c]" "\<not> am_sourcesLock ?ego2" "\<not> am_closed ?ego2"
    using a by (simp_all add: elems_go_append)
  have "ci_chan (chs c) = v # vs \<longrightarrow>
          activeMerger_Consume (Suc fuel) chs ?ego2 =
            Some (Inr ((v, True, None), chs(c := (chs c)\<lparr>ci_chan := vs\<rparr>),
                       ?ego2\<lparr>am_nextToReadFrom := 0\<rparr>))"
    using e by (simp add: am_Consume_single_ready)
  with s e show "\<exists>ego2. activeMerger_SetSource ego (Channeled c) chp = Inr (None, ego2)
           \<and> sl_elems (am_sources ego2) = [c] \<and> \<not> am_closed ego2
           \<and> (ci_chan (chs c) = v # vs \<longrightarrow>
                activeMerger_Consume (Suc fuel) chs ego2 =
                  Some (Inr ((v, True, None), chs(c := (chs c)\<lparr>ci_chan := vs\<rparr>),
                             ego2\<lparr>am_nextToReadFrom := 0\<rparr>)))"
    by blast
qed

theorem Consume_after_break_witness:
  "activeMerger_Consume_loop (Suc 0) (\<lambda>c. \<lparr>ci_chan = [7 :: int], ci_closed = False\<rparr>)
      (NewActiveMerger False) =
      Some (Inr (Broke, (\<lambda>c. \<lparr>ci_chan = [7], ci_closed = False\<rparr>), NewActiveMerger False))
   \<and> activeMerger_Consume (Suc 0) (\<lambda>c. \<lparr>ci_chan = [7 :: int], ci_closed = False\<rparr>)
      (NewActiveMerger False) =
      Some (Inr ((0, True,
        Some ''no sources attached yet or all sources were unset and autoclose is not active''),
        (\<lambda>c. \<lparr>ci_chan = [7], ci_closed = False\<rparr>), NewActiveMerger False))
   \<and> activeMerger_SetSource (NewActiveMerger False) (Channeled 3) 0 =
      Inr (None, (NewActiveMerger False)\<lparr>am_sources := go_append go_make0 3\<rparr>)
   \<and> activeMerger_Consume (Suc (Suc 0)) (\<lambda>c. \<lparr>ci_chan = [7 :: int], ci_closed = False\<rparr>)
      ((NewActiveMerger False)\<lparr>am_sources := go_append go_make0 3\<rparr>) =
      Some (Inr ((7, True, None),
        (\<lambda>c. \<lparr>ci_chan = [7], ci_closed = False\<rparr>)(3 := \<lparr>ci_chan = [], ci_closed = False\<rparr>),
        (NewActiveMerger False)\<lparr>am_sources := go_append go_make0 3\<rparr>))"
proof -
  let ?chs = "\<lambda>c::nat. \<lparr>ci_chan = [7 :: int], ci_closed = False\<rparr>"
  let ?ego = "NewActiveMerger False"
  let ?ego2 = "(NewActiveMerger False)\<lparr>am_sources := go_append go_make0 3\<rparr>"
  have h: "sl_elems (am_sources ?ego) = []" "\<not> am_sourcesLock ?ego" "\<not> am_closed ?ego"
    by (simp_all add: NewActiveMerger_def go_make0_def)
  have b: "activeMerger_Consume_loop (Suc 0) ?chs ?ego = Some (Inr (Broke, ?chs, ?ego))"
    using h(1,2) by (rule am_loop_empty)
  have s: "activeMerger_SetSource ?ego (Channeled 3) 0 = Inr (None, ?ego2)"
    by (simp add: activeMerger_SetSource_def NewActiveMerger_def am_Lock_def am_Unlock_def
        mutex_Lock_def mutex_Unlock_def)
  have e: "?ego2\<lparr>am_nextToReadFrom := 0\<rparr> = ?ego2"
    by (simp add: NewActiveMerger_def)
  show ?thesis
    using Consume_after_break [of "Suc 0" ?chs ?ego ?chs ?ego 3 0 7 "[]"] h b s e
    by simp
qed

text \<open>
  C8. In a round of the polling loop on a non-empty registry the cursor becomes
  \<open>(cursor + 1) mod len(registry)\<close> while the registry lock is held; the new cursor lies
  in \<open>[0, len(registry))\<close>, so the read of \<open>ego.sources[ego.nextToReadFrom]\<close> is in
  bounds. The loop as a whole never panics, however many rounds it runs and however
  the registry shrinks between them, and it leaves the lock free and the cursor
  non-negative for the next call.
\<close>

theorem cursor_stays_in_bounds:
  assumes "\<not> am_sourcesLock ego" and "0 \<le> am_nextToReadFrom ego"
  shows "(sl_elems (am_sources ego) \<noteq> [] \<longrightarrow>
           (let n = int (length (sl_elems (am_sources ego)));
                c = (am_nextToReadFrom ego + 1) mod n
            in 0 \<le> c \<and> c < n
               \<and> go_index (sl_elems (am_sources ego)) c = Inr (sl_elems (am_sources ego) ! nat c)
               \<and> activeMerger_Consume_round chs ego =
                   activeMerger_Consume_select chs
                     (ego\<lparr>am_sourcesLock := True, am_nextToReadFrom := c\<rparr>)))
       \<and> (\<forall>fuel res. activeMerger_Consume_loop fuel chs ego = Some res \<longrightarrow>
             (\<exists>out chs1 ego1. res = Inr (out, chs1, ego1)
                \<and> \<not> am_sourcesLock ego1 \<and> 0 \<le> am_nextToReadFrom ego1))
       \<and> (\<forall>fuel e. activeMerger_Consume fuel chs ego \<noteq> (Some (Inl e) :: (fault + ('a::zero got \<times> _)) option))"
proof (intro conjI impI allI)
  assume ne: "sl_elems (am_sources ego) \<noteq> []"
  let ?n = "int (length (sl_elems (am_sources ego)))"
  let ?c = "(am_nextToReadFrom ego + 1) mod ?n"
  from ne have "0 < ?n" by simp
  then have c: "0 \<le> ?c" "?c < ?n" by simp_all
  then have i: "go_index (sl_elems (am_sources ego)) ?c = Inr (sl_elems (am_sources ego) ! nat ?c)"
    by (rule go_index_in_range)
  have r: "activeMerger_Consume_round chs ego =
             activeMerger_Consume_select chs (ego\<lparr>am_sourcesLock := True, am_nextToReadFrom := ?c\<rparr>)"
    using ne assms by (rule am_round_nonempty)
  from c i r show "let n = ?n; c = (am_nextToReadFrom ego + 1) mod n
            in 0 \<le> c \<and> c < n
               \<and> go_index (sl_elems (am_sources ego)) c = Inr (sl_elems (am_sources ego) ! nat c)
               \<and> activeMerger_Consume_round chs ego =
                   activeMerger_Consume_select chs
                     (ego\<lparr>am_sourcesLock := True, am_nextToReadFrom := c\<rparr>)"
    by (simp add: Let_def)
next
  fix fuel res
  assume "activeMerger_Consume_loop fuel chs ego = Some res"
  with assms show "\<exists>out chs1 ego1. res = Inr (out, chs1, ego1)
                \<and> \<not> am_sourcesLock ego1 \<and> 0 \<le> am_nextToReadFrom ego1"
    using am_loop_ok [of ego fuel chs res] by (simp add: am_idle_def)
next
  fix fuel e
  show "activeMerger_Consume fuel chs ego \<noteq> (Some (Inl e) :: (fault + ('a got \<times> _)) option)"
  proof (cases "activeMerger_Consume_loop fuel chs ego")
    case None
    then show ?thesis by (simp add: activeMerger_Consume_def)
  next
    case (Some res)
    with assms obtain out chs1 ego1 where "res = Inr (out, chs1, ego1)"
      using am_loop_ok [of ego fuel chs res] by (auto simp add: am_idle_def)
    with Some show ?thesis
      by (cases out) (simp_all add: activeMerger_Consume_def)
  qed
qed

theorem cursor_stays_in_bounds_witness:
  "\<not> am_sourcesLock \<lparr>am_closed = False, am_sources = \<lparr>sl_elems = [4, 5, 6], sl_spare = []\<rparr>,
        am_autoclose = False, am_sourcesLock = False, am_nextToReadFrom = 2\<rparr>
   \<and> activeMerger_Consume_round
        (\<lambda>c. if c = 4 then \<lparr>ci_chan = [], ci_closed = True\<rparr> else \<lparr>ci_chan = [9 :: int], ci_closed = False\<rparr>)
        \<lparr>am_closed = False, am_sources = \<lparr>sl_elems = [4, 5, 6], sl_spare = []\<rparr>,
         am_autoclose = False, am_sourcesLock = False, am_nextToReadFrom = 2\<rparr> =
      activeMerger_Consume_select
        (\<lambda>c. if c = 4 then \<lparr>ci_chan = [], ci_closed = True\<rparr> else \<lparr>ci_chan = [9], ci_closed = False\<rparr>)
        \<lparr>am_closed = False, am_sources = \<lparr>sl_elems = [4, 5, 6], sl_spare = []\<rparr>,
         am_autoclose = False, am_sourcesLock = True, am_nextToReadFrom = 0\<rparr>
   \<and> activeMerger_Consume_loop (Suc (Suc 0))
        (\<lambda>c. if c = 4 then \<lparr>ci_chan = [], ci_closed = True\<rparr> else \<lparr>ci_chan = [9 :: int], ci_closed = False\<rparr>)
        \<lparr>am_closed = False, am_sources = \<lparr>sl_elems = [4, 5, 6], sl_spare = []\<rparr>,
         am_autoclose = False, am_sourcesLock = False, am_nextToReadFrom = 2\<rparr> =
      Some (Inr (Returned 9,
        (\<lambda>c. if c = 4 then \<lparr>ci_chan = [], ci_closed = True\<rparr> else \<lparr>ci_chan = [9], ci_closed = False\<rparr>)
          (6 := \<lparr>ci_chan = [], ci_closed = False\<rparr>),
        \<lparr>am_closed = False, am_sources = \<lparr>sl_elems = [5, 6], sl_spare = [6]\<rparr>,
         am_autoclose = False, am_sourcesLock = False, am_nextToReadFrom = 1\<rparr>))"
proof -
  let ?ego = "\<lparr>am_closed = False, am_sources = \<lparr>sl_elems = [4, 5, 6], sl_spare = []\<rparr>,
        am_autoclose = False, am_sourcesLock = False, am_nextToReadFrom = 2\<rparr>"
  let ?chs = "\<lambda>c::nat. if c = 4 then \<lparr>ci_chan = [], ci_closed = True\<rparr>
                else \<lparr>ci_chan = [9 :: int], ci_closed = False\<rparr>"
  have h: "\<not> am_sourcesLock ?ego" "0 \<le> am_nextToReadFrom ?ego" by simp_all
  have l: "activeMerger_Consume_loop (Suc (Suc 0)) ?chs ?ego =
      Some (Inr (Returned 9, ?chs(6 := \<lparr>ci_chan = [], ci_closed = False\<rparr>),
        \<lparr>am_closed = False, am_sources = \<lparr>sl_elems = [5, 6], sl_spare = [6]\<rparr>,
         am_autoclose = False, am_sourcesLock = False, am_nextToReadFrom = 1\<rparr>))"
    by (simp add: activeMerger_Consume_round_def activeMerger_Consume_select_def am_Lock_def
        am_Unlock_def mutex_Lock_def mutex_Unlock_def go_rem_def go_index_def chan_recv_def
        activeMerger_unsetSource.simps removeFirst_def go_delete_def)
  show ?thesis
    using cursor_stays_in_bounds [OF h, of ?chs] l by (simp add: Let_def)
qed

text \<open>
  C10. On an empty registry of a merger that is not closed, \<open>Consume\<close> returns the
  zero value with valid = true and the starvation error. A value 0 that a source has
  ready is returned as the same value with the same flag valid = true: the two results
  differ in the error only.
\<close>

theorem starvation_error_has_valid_true:
  assumes "\<not> am_closed ego" and "\<not> am_sourcesLock ego" and "sl_elems (am_sources ego) = []"
    and "sl_elems (am_sources ego2) = [c]" and "\<not> am_sourcesLock ego2"
    and "ci_chan (chs c) = 0 # vs"
  shows "activeMerger_Consume (Suc fuel) chs ego =
           Some (Inr ((0, True,
             Some ''no sources attached yet or all sources were unset and autoclose is not active''),
             chs, ego))
         \<and> activeMerger_Consume (Suc fuel) chs ego2 =
           Some (Inr ((0, True, None), chs(c := (chs c)\<lparr>ci_chan := vs\<rparr>),
                      ego2\<lparr>am_nextToReadFrom := 0\<rparr>))"
  using assms by (simp add: am_Consume_starved am_Consume_single_ready)

theorem starvation_error_has_valid_true_witness:
  "\<not> am_closed (NewActiveMerger False) \<and> \<not> am_sourcesLock (NewActiveMerger False)
   \<and> sl_elems (am_sources (NewActiveMerger False)) = []
   \<and> sl_elems (am_sources ((NewActiveMerger False)\<lparr>am_sources := go_append go_make0 3\<rparr>)) = [3]
   \<and> ci_chan ((\<lambda>c. \<lparr>ci_chan = [0, 8], ci_closed = False\<rparr>) (3::nat)) = (0::int) # [8]
   \<and> activeMerger_Consume (Suc 0) (\<lambda>c. \<lparr>ci_chan = [0, 8 :: int], ci_closed = False\<rparr>)
        (NewActiveMerger False) =
        Some (Inr ((0, True,
          Some ''no sources attached yet or all sources were unset and autoclose is not active''),
          (\<lambda>c. \<lparr>ci_chan = [0, 8], ci_closed = False\<rparr>), NewActiveMerger False))
   \<and> activeMerger_Consume (Suc 0) (\<lambda>c. \<lparr>ci_chan = [0, 8 :: int], ci_closed = False\<rparr>)
        ((NewActiveMerger False)\<lparr>am_sources := go_append go_make0 3\<rparr>) =
        Some (Inr ((0, True, None),
          (\<lambda>c. \<lparr>ci_chan = [0, 8], ci_closed = False\<rparr>)(3 := \<lparr>ci_chan = [8], ci_closed = False\<rparr>),
          (NewActiveMerger False)\<lparr>am_sources := go_append go_make0 3\<rparr>))"
proof -
  let ?chs = "\<lambda>c::nat. \<lparr>ci_chan = [0, 8 :: int], ci_closed = False\<rparr>"
  let ?ego2 = "(NewActiveMerger False)\<lparr>am_sources := go_append go_make0 3\<rparr>"
  have h: "\<not> am_closed (NewActiveMerger False)" "\<not> am_sourcesLock (NewActiveMerger False)"
    "sl_elems (am_sources (NewActiveMerger False)) = []"
    "sl_elems (am_sources ?ego2) = [3]" "\<not> am_sourcesLock ?ego2"
    "ci_chan (?chs 3) = 0 # [8]"
    by (simp_all add: NewActiveMerger_def go_make0_def go_append_def)
  have e: "?ego2\<lparr>am_nextToReadFrom := 0\<rparr> = ?ego2"
    by (simp add: NewActiveMerger_def)
  show ?thesis
    using h starvation_error_has_valid_true [OF h, of 0] e by simp
qed

section \<open>Closing and detaching\<close>

text \<open>
  C2. \<open>activeMerger.Close\<close> on an open merger with the three sources 1, 2 and 3 returns
  with the merger closed and source 2 still in the registry: \<open>range\<close> reads the cells
  of the backing array that \<open>unsetSource\<close> has shifted in the meantime, so it unsets
  1, then 3, then 3 again. (The lazy merger's \<open>Close\<close> does empty its registry, see
  \<open>lm_Close_total\<close>.)
\<close>

theorem activeMerger_Close_leaves_a_source:
  "activeMerger_Close
      \<lparr>am_closed = False, am_sources = \<lparr>sl_elems = [1, 2, 3], sl_spare = []\<rparr>,
       am_autoclose = False, am_sourcesLock = False, am_nextToReadFrom = 0\<rparr>
    = Inr \<lparr>am_closed = True, am_sources = \<lparr>sl_elems = [2], sl_spare = [3, 3]\<rparr>,
       am_autoclose = False, am_sourcesLock = False, am_nextToReadFrom = 0\<rparr>"
  by (simp add: activeMerger_Close.simps activeMerger_CloseRange.simps
      activeMerger_unsetSource.simps sl_backing_def go_index_def removeFirst_def go_delete_def
      am_Lock_def am_Unlock_def mutex_Lock_def mutex_Unlock_def)

text \<open>
  C3. Detaching the only source of an open merger empties the registry. With
  autoclose the merger is closed by that call, and it stays as it is under a further
  \<open>unsetSource\<close> or \<open>Close\<close>; without autoclose it stays open, and \<open>SetSource\<close> attaches
  a new source. This holds for the active and for the lazy merger (locks free; the lazy
  calls get the fuel for their nested calls).
\<close>

theorem autoclose_on_last_detach:
  "(\<not> am_closed a \<and> \<not> am_sourcesLock a \<and> sl_elems (am_sources a) = [s] \<longrightarrow>
      (\<exists>a1. activeMerger_unsetSource a s = Inr a1 \<and> sl_elems (am_sources a1) = []
         \<and> (am_autoclose a \<longrightarrow>
               am_closed a1 \<and> activeMerger_unsetSource a1 s2 = Inr a1
               \<and> activeMerger_Close a1 = Inr a1)
         \<and> (\<not> am_autoclose a \<longrightarrow>
               \<not> am_closed a1
               \<and> (\<exists>a2. activeMerger_SetSource a1 (Channeled c) chp = Inr (None, a2)
                     \<and> sl_elems (am_sources a2) = [c] \<and> \<not> am_closed a2))))
   \<and> (\<not> lm_Closed l \<and> \<not> lm_sourcesLock l \<and> sl_elems (lm_sources l) = [s] \<longrightarrow>
      (\<exists>l1. channeledLazyMerger_unsetSource (Suc (Suc (Suc fuel))) l s = Some (Inr l1)
         \<and> sl_elems (lm_sources l1) = []
         \<and> (lm_autoclose l \<longrightarrow>
               lm_Closed l1 \<and> channeledLazyMerger_unsetSource (Suc fuel) l1 s2 = Some (Inr l1)
               \<and> channeledLazyMerger_Close (Suc (Suc fuel)) l1 = Some (Inr l1))
         \<and> (\<not> lm_autoclose l \<longrightarrow>
               \<not> lm_Closed l1
               \<and> (\<exists>l2. channeledLazyMerger_SetSource l1 c = Inr (None, l2)
                     \<and> sl_elems (lm_sources l2) = [c] \<and> \<not> lm_Closed l2))))"
proof (intro conjI impI)
  assume h: "\<not> am_closed a \<and> \<not> am_sourcesLock a \<and> sl_elems (am_sources a) = [s]"
  let ?a1 = "a\<lparr>am_closed := am_autoclose a \<and> sl_elems (removeFirst s (am_sources a)) = [],
               am_sources := removeFirst s (am_sources a)\<rparr>"
  have e: "sl_elems (removeFirst s (am_sources a)) = []"
    using h by (simp add: removeFirst_single)
  have u: "activeMerger_unsetSource a s = Inr ?a1"
    using h by (simp add: am_unsetSource_open)
  have e1: "sl_elems (am_sources ?a1) = []" using e by simp
  have c1: "am_closed ?a1 = am_autoclose a" using e by simp
  have l1: "\<not> am_sourcesLock ?a1" using h by simp
  have yes: "am_autoclose a \<longrightarrow> am_closed ?a1 \<and> activeMerger_unsetSource ?a1 s2 = Inr ?a1
               \<and> activeMerger_Close ?a1 = Inr ?a1"
    using c1 am_unsetSource_closed [of ?a1 s2] am_Close_closed [of ?a1] by blast
  have no: "\<not> am_autoclose a \<longrightarrow> \<not> am_closed ?a1
               \<and> (\<exists>a2. activeMerger_SetSource ?a1 (Channeled c) chp = Inr (None, a2)
                     \<and> sl_elems (am_sources a2) = [c] \<and> \<not> am_closed a2)"
  proof
    assume "\<not> am_autoclose a"
    with c1 have o: "\<not> am_closed ?a1" by simp
    from o l1 have "activeMerger_SetSource ?a1 (Channeled c) chp =
        Inr (None, ?a1\<lparr>am_sources := go_append (am_sources ?a1) c\<rparr>)"
      using am_SetSource_open [of ?a1 "Channeled c" chp] by simp
    moreover have "sl_elems (am_sources (?a1\<lparr>am_sources := go_append (am_sources ?a1) c\<rparr>)) = [c]"
      using e by (simp add: elems_go_append)
    moreover have "\<not> am_closed (?a1\<lparr>am_sources := go_append (am_sources ?a1) c\<rparr>)"
      using o by simp
    ultimately show "\<not> am_closed ?a1
               \<and> (\<exists>a2. activeMerger_SetSource ?a1 (Channeled c) chp = Inr (None, a2)
                     \<and> sl_elems (am_sources a2) = [c] \<and> \<not> am_closed a2)"
      using o by blast
  qed
  from u e1 yes no
  show "\<exists>a1. activeMerger_unsetSource a s = Inr a1 \<and> sl_elems (am_sources a1) = []
         \<and> (am_autoclose a \<longrightarrow>
               am_closed a1 \<and> activeMerger_unsetSource a1 s2 = Inr a1
               \<and> activeMerger_Close a1 = Inr a1)
         \<and> (\<not> am_autoclose a \<longrightarrow>
               \<not> am_closed a1
               \<and> (\<exists>a2. activeMerger_SetSource a1 (Channeled c) chp = Inr (None, a2)
                     \<and> sl_elems (am_sources a2) = [c] \<and> \<not> am_closed a2))"
    by blast
next
  assume h: "\<not> lm_Closed l \<and> \<not> lm_sourcesLock l \<and> sl_elems (lm_sources l) = [s]"
  let ?l1 = "l\<lparr>lm_sources := removeFirst s (lm_sources l),
               lm_input := (if lm_autoclose l \<and> sl_elems (removeFirst s (lm_sources l)) = []
                            then ChanneledInput_Close (lm_input l) else lm_input l)\<rparr>"
  have e: "sl_elems (removeFirst s (lm_sources l)) = []"
    using h by (simp add: removeFirst_single)
  have u: "channeledLazyMerger_unsetSource (Suc (Suc (Suc fuel))) l s = Some (Inr ?l1)"
    using h by (intro lm_unsetSource_open) simp_all
  have e1: "sl_elems (lm_sources ?l1) = []" using e by simp
  have c1: "lm_Closed ?l1 = lm_autoclose l"
    using e h by (simp add: lm_Closed_def ChanneledInput_Close_def)
  have k1: "\<not> lm_sourcesLock ?l1" using h by simp
  have yes: "lm_autoclose l \<longrightarrow>
               lm_Closed ?l1 \<and> channeledLazyMerger_unsetSource (Suc fuel) ?l1 s2 = Some (Inr ?l1)
               \<and> channeledLazyMerger_Close (Suc (Suc fuel)) ?l1 = Some (Inr ?l1)"
    using c1 k1 e1 lm_unsetSource_closed [of ?l1 fuel s2] lm_Close_again [of ?l1 fuel] by blast
  have no: "\<not> lm_autoclose l \<longrightarrow> \<not> lm_Closed ?l1
               \<and> (\<exists>l2. channeledLazyMerger_SetSource ?l1 c = Inr (None, l2)
                     \<and> sl_elems (lm_sources l2) = [c] \<and> \<not> lm_Closed l2)"
  proof
    assume "\<not> lm_autoclose l"
    with c1 have o: "\<not> lm_Closed ?l1" by simp
    from o k1 have "channeledLazyMerger_SetSource ?l1 c =
        Inr (None, ?l1\<lparr>lm_sources := go_append (lm_sources ?l1) c\<rparr>)"
      by (rule lm_SetSource_open)
    moreover have "sl_elems (lm_sources (?l1\<lparr>lm_sources := go_append (lm_sources ?l1) c\<rparr>)) = [c]"
      using e by (simp add: elems_go_append)
    moreover have "\<not> lm_Closed (?l1\<lparr>lm_sources := go_append (lm_sources ?l1) c\<rparr>)"
      using o by (simp add: lm_Closed_def)
    ultimately show "\<not> lm_Closed ?l1
               \<and> (\<exists>l2. channeledLazyMerger_SetSource ?l1 c = Inr (None, l2)
                     \<and> sl_elems (lm_sources l2) = [c] \<and> \<not> lm_Closed l2)"
      using o by blast
  qed
  from u e1 yes no
  show "\<exists>l1. channeledLazyMerger_unsetSource (Suc (Suc (Suc fuel))) l s = Some (Inr l1)
         \<and> sl_elems (lm_sources l1) = []
         \<and> (lm_autoclose l \<longrightarrow>
               lm_Closed l1 \<and> channeledLazyMerger_unsetSource (Suc fuel) l1 s2 = Some (Inr l1)
               \<and> channeledLazyMerger_Close (Suc (Suc fuel)) l1 = Some (Inr l1))
         \<and> (\<not> lm_autoclose l \<longrightarrow>
               \<not> lm_Closed l1
               \<and> (\<exists>l2. channeledLazyMerger_SetSource l1 c = Inr (None, l2)
                     \<and> sl_elems (lm_sources l2) = [c] \<and> \<not> lm_Closed l2))"
    by blast
qed

theorem autoclose_on_last_detach_witness:
  "activeMerger_unsetSource
      \<lparr>am_closed = False, am_sources = \<lparr>sl_elems = [4], sl_spare = []\<rparr>,
       am_autoclose = True, am_sourcesLock = False, am_nextToReadFrom = 0\<rparr> 4
    = Inr \<lparr>am_closed = True, am_sources = \<lparr>sl_elems = [], sl_spare = [4]\<rparr>,
       am_autoclose = True, am_sourcesLock = False, am_nextToReadFrom = 0\<rparr>
   \<and> activeMerger_unsetSource
      \<lparr>am_closed = False, am_sources = \<lparr>sl_elems = [4], sl_spare = []\<rparr>,
       am_autoclose = False, am_sourcesLock = False, am_nextToReadFrom = 0\<rparr> 4
    = Inr \<lparr>am_closed = False, am_sources = \<lparr>sl_elems = [], sl_spare = [4]\<rparr>,
       am_autoclose = False, am_sourcesLock = False, am_nextToReadFrom = 0\<rparr>
   \<and> activeMerger_SetSource
      \<lparr>am_closed = False, am_sources = \<lparr>sl_elems = [], sl_spare = [4]\<rparr>,
       am_autoclose = False, am_sourcesLock = False, am_nextToReadFrom = 0\<rparr> (Channeled 6) 0
    = Inr (None, \<lparr>am_closed = False, am_sources = \<lparr>sl_elems = [6], sl_spare = []\<rparr>,
       am_autoclose = False, am_sourcesLock = False, am_nextToReadFrom = 0\<rparr>)
   \<and> channeledLazyMerger_unsetSource (Suc (Suc (Suc 0)))
      \<lparr>lm_input = \<lparr>ci_chan = [5 :: nat], ci_closed = False\<rparr>,
       lm_sources = \<lparr>sl_elems = [4], sl_spare = []\<rparr>, lm_autoclose = True,
       lm_overflowBuffer = [], lm_sourcesLock = False, lm_overflowBufferLock = False\<rparr> 4
    = Some (Inr \<lparr>lm_input = \<lparr>ci_chan = [5], ci_closed = True\<rparr>,
       lm_sources = \<lparr>sl_elems = [], sl_spare = [4]\<rparr>, lm_autoclose = True,
       lm_overflowBuffer = [], lm_sourcesLock = False, lm_overflowBufferLock = False\<rparr>)
   \<and> channeledLazyMerger_unsetSource (Suc (Suc (Suc 0)))
      \<lparr>lm_input = \<lparr>ci_chan = [5 :: nat], ci_closed = False\<rparr>,
       lm_sources = \<lparr>sl_elems = [4], sl_spare = []\<rparr>, lm_autoclose = False,
       lm_overflowBuffer = [], lm_sourcesLock = False, lm_overflowBufferLock = False\<rparr> 4
    = Some (Inr \<lparr>lm_input = \<lparr>ci_chan = [5], ci_closed = False\<rparr>,
       lm_sources = \<lparr>sl_elems = [], sl_spare = [4]\<rparr>, lm_autoclose = False,
       lm_overflowBuffer = [], lm_sourcesLock = False, lm_overflowBufferLock = False\<rparr>)
   \<and> channeledLazyMerger_SetSource
      \<lparr>lm_input = \<lparr>ci_chan = [5 :: nat], ci_closed = False\<rparr>,
       lm_sources = \<lparr>sl_elems = [], sl_spare = [4]\<rparr>, lm_autoclose = False,
       lm_overflowBuffer = [], lm_sourcesLock = False, lm_overflowBufferLock = False\<rparr> 6
    = Inr (None, \<lparr>lm_input = \<lparr>ci_chan = [5], ci_closed = False\<rparr>,
       lm_sources = \<lparr>sl_elems = [6], sl_spare = []\<rparr>, lm_autoclose = False,
       lm_overflowBuffer = [], lm_sourcesLock = False, lm_overflowBufferLock = False\<rparr>)"
proof -
  let ?a = "\<lambda>au. \<lparr>am_closed = False, am_sources = \<lparr>sl_elems = [4], sl_spare = []\<rparr>,
       am_autoclose = au, am_sourcesLock = False, am_nextToReadFrom = 0\<rparr>"
  let ?l = "\<lambda>au. \<lparr>lm_input = \<lparr>ci_chan = [5 :: nat], ci_closed = False\<rparr>,
       lm_sources = \<lparr>sl_elems = [4], sl_spare = []\<rparr>, lm_autoclose = au,
       lm_overflowBuffer = [], lm_sourcesLock = False, lm_overflowBufferLock = False\<rparr>"
  have ha: "\<not> am_closed (?a au) \<and> \<not> am_sourcesLock (?a au) \<and> sl_elems (am_sources (?a au)) = [4]"
    for au by simp
  have hl: "\<not> lm_Closed (?l au) \<and> \<not> lm_sourcesLock (?l au) \<and> sl_elems (lm_sources (?l au)) = [4]"
    for au by (simp add: lm_Closed_def)
  have d: "removeFirst 4 \<lparr>sl_elems = [4::nat], sl_spare = []\<rparr> = \<lparr>sl_elems = [], sl_spare = [4]\<rparr>"
    by (simp add: removeFirst_def go_delete_def)
  have ap: "go_append \<lparr>sl_elems = [], sl_spare = [4::nat]\<rparr> 6 = \<lparr>sl_elems = [6], sl_spare = []\<rparr>"
    by (simp add: go_append_def)
  show ?thesis
    using autoclose_on_last_detach [of "?a True" 4 4 6 0 "?l True" 0]
      autoclose_on_last_detach [of "?a False" 4 4 6 0 "?l False" 0] ha hl
    by (simp add: am_unsetSource_open lm_unsetSource_open d ap am_SetSource_open
        lm_SetSource_open lm_Closed_def ChanneledInput_Close_def
        del: channeledLazyMerger_unsetSource.simps)
qed



section \<open>Reading from the lazy merger\<close>

text \<open>
  C1. \<open>channeledLazyMerger.Consume\<close> (and \<open>Get\<close>, which calls it) returns the oldest
  value of the shared buffer while there is one, and leaves the overflow buffer alone.
  When the shared buffer is closed and drained it pops the oldest overflow entry, with
  valid = true. It reports end-of-stream only when the shared buffer is closed and
  drained and the overflow buffer is empty; on an open and empty shared buffer it waits.
  Reading a closed merger to the end gives the shared buffer's values, then the overflow
  entries, each in FIFO order, then end-of-stream.
\<close>

theorem lazy_Consume_overflow_last:
  "(ci_chan (lm_input ego) = v # vs \<longrightarrow>
      channeledLazyMerger_Consume ego =
        Some (Inr ((v, True, None), ego\<lparr>lm_input := (lm_input ego)\<lparr>ci_chan := vs\<rparr>\<rparr>)))
   \<and> (ci_chan (lm_input ego) = [] \<and> lm_Closed ego \<and> lm_overflowBuffer ego = v # vs
        \<and> \<not> lm_overflowBufferLock ego \<longrightarrow>
      channeledLazyMerger_Consume ego =
        Some (Inr ((v, True, None), ego\<lparr>lm_overflowBuffer := vs\<rparr>)))
   \<and> (ci_chan (lm_input ego) = [] \<and> lm_Closed ego \<and> lm_overflowBuffer ego = [] \<longrightarrow>
      channeledLazyMerger_Consume ego = Some (Inr ((0, False, None), ego)))
   \<and> (ci_chan (lm_input ego) = [] \<and> \<not> lm_Closed ego \<longrightarrow>
      channeledLazyMerger_Consume ego = None)
   \<and> (channeledLazyMerger_Consume ego = Some (Inr ((w, False, e), ego1)) \<longrightarrow>
      ci_chan (lm_input ego) = [] \<and> lm_Closed ego \<and> lm_overflowBuffer ego = [])
   \<and> (lm_Closed ego \<and> \<not> lm_overflowBufferLock ego \<longrightarrow>
      channeledLazyMerger_Gets
          (Suc (length (ci_chan (lm_input ego)) + length (lm_overflowBuffer ego))) ego =
        Some (Inr (map (\<lambda>v. (v, True, None)) (ci_chan (lm_input ego) @ lm_overflowBuffer ego)
                     @ [(0, False, None)],
                   ego\<lparr>lm_input := (lm_input ego)\<lparr>ci_chan := []\<rparr>, lm_overflowBuffer := []\<rparr>)))
   \<and> channeledLazyMerger_Get ego = channeledLazyMerger_Consume ego"
proof (intro conjI impI)
  assume "ci_chan (lm_input ego) = v # vs"
  then show "channeledLazyMerger_Consume ego =
        Some (Inr ((v, True, None), ego\<lparr>lm_input := (lm_input ego)\<lparr>ci_chan := vs\<rparr>\<rparr>))"
    by (rule lm_Consume_buffered)
next
  assume "ci_chan (lm_input ego) = [] \<and> lm_Closed ego \<and> lm_overflowBuffer ego = v # vs
        \<and> \<not> lm_overflowBufferLock ego"
  then show "channeledLazyMerger_Consume ego =
        Some (Inr ((v, True, None), ego\<lparr>lm_overflowBuffer := vs\<rparr>))"
    using lm_Consume_overflow [of ego v vs] by blast
next
  assume "ci_chan (lm_input ego) = [] \<and> lm_Closed ego \<and> lm_overflowBuffer ego = []"
  then show "channeledLazyMerger_Consume ego = Some (Inr ((0, False, None), ego))"
    using lm_Consume_exhausted [of ego] by blast
next
  assume "ci_chan (lm_input ego) = [] \<and> \<not> lm_Closed ego"
  then show "channeledLazyMerger_Consume ego = None"
    using lm_Consume_waits [of ego] by blast
next
  assume c: "channeledLazyMerger_Consume ego = Some (Inr ((w, False, e), ego1))"
  then show "ci_chan (lm_input ego) = []" using lm_Consume_invalid by blast
  from c show "lm_Closed ego" using lm_Consume_invalid by blast
  from c show "lm_overflowBuffer ego = []" using lm_Consume_invalid by blast
next
  assume "lm_Closed ego \<and> \<not> lm_overflowBufferLock ego"
  then show "channeledLazyMerger_Gets
          (Suc (length (ci_chan (lm_input ego)) + length (lm_overflowBuffer ego))) ego =
        Some (Inr (map (\<lambda>v. (v, True, None)) (ci_chan (lm_input ego) @ lm_overflowBuffer ego)
                     @ [(0, False, None)],
                   ego\<lparr>lm_input := (lm_input ego)\<lparr>ci_chan := []\<rparr>, lm_overflowBuffer := []\<rparr>))"
    using lm_Gets_all [of ego] by blast
next
  show "channeledLazyMerger_Get ego = channeledLazyMerger_Consume ego"
    by (simp add: channeledLazyMerger_Get_def)
qed

theorem lazy_Consume_overflow_last_witness:
  "channeledLazyMerger_Consume
      \<lparr>lm_input = \<lparr>ci_chan = [1, 2 :: nat], ci_closed = True\<rparr>,
       lm_sources = \<lparr>sl_elems = [], sl_spare = []\<rparr>, lm_autoclose = False,
       lm_overflowBuffer = [3, 4], lm_sourcesLock = False, lm_overflowBufferLock = False\<rparr>
    = Some (Inr ((1, True, None),
      \<lparr>lm_input = \<lparr>ci_chan = [2], ci_closed = True\<rparr>,
       lm_sources = \<lparr>sl_elems = [], sl_spare = []\<rparr>, lm_autoclose = False,
       lm_overflowBuffer = [3, 4], lm_sourcesLock = False, lm_overflowBufferLock = False\<rparr>))
   \<and> channeledLazyMerger_Consume
      \<lparr>lm_input = \<lparr>ci_chan = [], ci_closed = True\<rparr>,
       lm_sources = \<lparr>sl_elems = [], sl_spare = []\<rparr>, lm_autoclose = False,
       lm_overflowBuffer = [3, 4 :: nat], lm_sourcesLock = False, lm_overflowBufferLock = False\<rparr>
    = Some (Inr ((3, True, None),
      \<lparr>lm_input = \<lparr>ci_chan = [], ci_closed = True\<rparr>,
       lm_sources = \<lparr>sl_elems = [], sl_spare = []\<rparr>, lm_autoclose = False,
       lm_overflowBuffer = [4], lm_sourcesLock = False, lm_overflowBufferLock = False\<rparr>))
   \<and> channeledLazyMerger_Consume
      \<lparr>lm_input = \<lparr>ci_chan = [], ci_closed = True\<rparr>,
       lm_sources = \<lparr>sl_elems = [], sl_spare = []\<rparr>, lm_autoclose = False,
       lm_overflowBuffer = [] :: nat list, lm_sourcesLock = False, lm_overflowBufferLock = False\<rparr>
    = Some (Inr ((0, False, None),
      \<lparr>lm_input = \<lparr>ci_chan = [], ci_closed = True\<rparr>,
       lm_sources = \<lparr>sl_elems = [], sl_spare = []\<rparr>, lm_autoclose = False,
       lm_overflowBuffer = [], lm_sourcesLock = False, lm_overflowBufferLock = False\<rparr>))
   \<and> channeledLazyMerger_Consume
      \<lparr>lm_input = \<lparr>ci_chan = [], ci_closed = False\<rparr>,
       lm_sources = \<lparr>sl_elems = [], sl_spare = []\<rparr>, lm_autoclose = False,
       lm_overflowBuffer = [3, 4 :: nat], lm_sourcesLock = False, lm_overflowBufferLock = False\<rparr>
    = None
   \<and> channeledLazyMerger_Gets 5
      \<lparr>lm_input = \<lparr>ci_chan = [1, 2 :: nat], ci_closed = True\<rparr>,
       lm_sources = \<lparr>sl_elems = [], sl_spare = []\<rparr>, lm_autoclose = False,
       lm_overflowBuffer = [3, 4], lm_sourcesLock = False, lm_overflowBufferLock = False\<rparr>
    = Some (Inr ([(1, True, None), (2, True, None), (3, True, None), (4, True, None),
                  (0, False, None)],
      \<lparr>lm_input = \<lparr>ci_chan = [], ci_closed = True\<rparr>,
       lm_sources = \<lparr>sl_elems = [], sl_spare = []\<rparr>, lm_autoclose = False,
       lm_overflowBuffer = [], lm_sourcesLock = False, lm_overflowBufferLock = False\<rparr>))"
proof -
  let ?m = "\<lambda>ch cl ov. \<lparr>lm_input = \<lparr>ci_chan = ch, ci_closed = cl\<rparr>,
       lm_sources = \<lparr>sl_elems = [], sl_spare = []\<rparr>, lm_autoclose = False,
       lm_overflowBuffer = ov :: nat list, lm_sourcesLock = False, lm_overflowBufferLock = False\<rparr>"
  have n: "Suc (length (ci_chan (lm_input (?m [1, 2] True [3, 4])))
             + length (lm_overflowBuffer (?m [1, 2] True [3, 4]))) = 5"
    by simp
  show ?thesis
    using lazy_Consume_overflow_last [of "?m [1, 2] True [3, 4]" 1 "[2]" 0 None "?m [] True []"]
      lazy_Consume_overflow_last [of "?m [] True [3, 4]" 3 "[4]" 0 None "?m [] True []"]
      lazy_Consume_overflow_last [of "?m [] True []" 3 "[4]" 0 None "?m [] True []"]
      lazy_Consume_overflow_last [of "?m [] False [3, 4]" 3 "[4]" 0 None "?m [] True []"]
    unfolding n
    by (simp add: lm_Closed_def del: channeledLazyMerger_Gets.simps)
qed

section \<open>The broadcast of the multiplexer\<close>

text \<open>
  C6. If \<open>Write\<close> appends to an open buffer and all outputs are open, \<open>pipeData\<close> on an
  upstream that gives the valid values \<open>vs\<close> and then end-of-stream or an error appends
  \<open>vs\<close>, in order, to every output and closes every output. However \<open>pipeData\<close> is
  left, by \<open>return\<close> or by a panic of the upstream or of \<open>Write\<close>, all outputs are
  closed afterwards. One value is written to the outputs in their order: if \<open>Write\<close>
  panics at an output, the outputs before it have the value and the others do not.
\<close>

theorem pipeData_broadcasts_and_closes:
  "((\<forall>out v. \<not> ci_closed out \<longrightarrow> wr out v = Inr (out\<lparr>ci_chan := ci_chan out @ [v]\<rparr>))
      \<and> (\<forall>out \<in> set (mx_outputs ego). \<not> ci_closed out)
      \<and> (err \<noteq> None \<or> \<not> valid) \<longrightarrow>
      multiplexer_pipeData wr (map (\<lambda>v. Answer v True None) vs @ Answer x valid err # rest) ego =
        Some (None, ego\<lparr>mx_outputs :=
                       map (\<lambda>out. out\<lparr>ci_chan := ci_chan out @ vs, ci_closed := True\<rparr>)
                         (mx_outputs ego)\<rparr>))
   \<and> (multiplexer_pipeData wr2 ups ego2 = Some (ex, ego3) \<longrightarrow>
        length (mx_outputs ego3) = length (mx_outputs ego2)
        \<and> (\<forall>out \<in> set (mx_outputs ego3). ci_closed out))
   \<and> ((\<forall>out v. \<not> ci_closed out \<longrightarrow> wr3 out v = Inr (out\<lparr>ci_chan := ci_chan out @ [v]\<rparr>))
        \<and> (\<forall>out \<in> set pre. \<not> ci_closed out) \<and> wr3 bad y = Inl e \<longrightarrow>
      multiplexer_writeAll wr3 (pre @ bad # post) y =
        (Some e, map (\<lambda>out. out\<lparr>ci_chan := ci_chan out @ [y]\<rparr>) pre @ bad # post))"
proof (intro conjI impI)
  assume h: "(\<forall>out v. \<not> ci_closed out \<longrightarrow> wr out v = Inr (out\<lparr>ci_chan := ci_chan out @ [v]\<rparr>))
      \<and> (\<forall>out \<in> set (mx_outputs ego). \<not> ci_closed out)
      \<and> (err \<noteq> None \<or> \<not> valid)"
  then have w: "\<And>out v. \<not> ci_closed out \<Longrightarrow> wr out v = Inr (out\<lparr>ci_chan := ci_chan out @ [v]\<rparr>)"
    by blast
  from h have o: "\<forall>out \<in> set (mx_outputs ego). \<not> ci_closed out" by blast
  from h have s: "err \<noteq> None \<or> \<not> valid" by blast
  have "multiplexer_pipeData_loop wr
          (map (\<lambda>v. Answer v True None) vs @ Answer x valid err # rest) (mx_outputs ego) =
        Some (None, map (\<lambda>out. out\<lparr>ci_chan := ci_chan out @ vs\<rparr>) (mx_outputs ego))"
    using w o s by (rule mx_loop_broadcast)
  then show "multiplexer_pipeData wr
          (map (\<lambda>v. Answer v True None) vs @ Answer x valid err # rest) ego =
        Some (None, ego\<lparr>mx_outputs :=
                       map (\<lambda>out. out\<lparr>ci_chan := ci_chan out @ vs, ci_closed := True\<rparr>)
                         (mx_outputs ego)\<rparr>)"
    by (simp add: multiplexer_pipeData_def mx_deferred ChanneledInput_Close_def comp_def)
next
  assume p: "multiplexer_pipeData wr2 ups ego2 = Some (ex, ego3)"
  then obtain outs where l: "multiplexer_pipeData_loop wr2 ups (mx_outputs ego2) = Some (ex, outs)"
    and e: "ego3 = ego2\<lparr>mx_outputs := multiplexer_deferred outs\<rparr>"
    by (auto simp add: multiplexer_pipeData_def split: option.splits)
  from l have "length outs = length (mx_outputs ego2)" by (rule mx_loop_length)
  with e show "length (mx_outputs ego3) = length (mx_outputs ego2)"
    by (simp add: mx_deferred)
  from e show "\<forall>out \<in> set (mx_outputs ego3). ci_closed out"
    by (simp add: mx_deferred ChanneledInput_Close_def)
next
  assume h: "(\<forall>out v. \<not> ci_closed out \<longrightarrow> wr3 out v = Inr (out\<lparr>ci_chan := ci_chan out @ [v]\<rparr>))
        \<and> (\<forall>out \<in> set pre. \<not> ci_closed out) \<and> wr3 bad y = Inl e"
  then have w: "\<And>out v. \<not> ci_closed out \<Longrightarrow> wr3 out v = Inr (out\<lparr>ci_chan := ci_chan out @ [v]\<rparr>)"
    by blast
  from h have o: "\<forall>out \<in> set pre. \<not> ci_closed out" and b: "wr3 bad y = Inl e" by blast+
  from w o b show "multiplexer_writeAll wr3 (pre @ bad # post) y =
        (Some e, map (\<lambda>out. out\<lparr>ci_chan := ci_chan out @ [y]\<rparr>) pre @ bad # post)"
    by (rule mx_writeAll_stops)
qed

theorem pipeData_broadcasts_and_closes_witness:
  "multiplexer_pipeData (\<lambda>out v. Inr (out\<lparr>ci_chan := ci_chan out @ [v]\<rparr>))
      [Answer 7 True None, Answer 8 True None, Answer 0 False None, Answer 9 True None]
      \<lparr>mx_outputs = replicate 2 (NewChanneledInput :: nat channeledInput)\<rparr>
    = Some (None, \<lparr>mx_outputs = replicate 2 \<lparr>ci_chan = [7, 8], ci_closed = True\<rparr>\<rparr>)
   \<and> multiplexer_pipeData (\<lambda>out v. Inr (out\<lparr>ci_chan := ci_chan out @ [v]\<rparr>))
      [Answer 7 True None, Panics]
      \<lparr>mx_outputs = replicate 2 (NewChanneledInput :: nat channeledInput)\<rparr>
    = Some (Some ForeignPanic, \<lparr>mx_outputs = replicate 2 \<lparr>ci_chan = [7], ci_closed = True\<rparr>\<rparr>)
   \<and> map ci_closed (replicate 2 \<lparr>ci_chan = [7 :: nat], ci_closed = True\<rparr>) = [True, True]
   \<and> multiplexer_writeAll
        (\<lambda>out v. if ci_closed out then Inl ForeignPanic
                  else Inr (out\<lparr>ci_chan := ci_chan out @ [v]\<rparr>))
        [\<lparr>ci_chan = [1], ci_closed = False\<rparr>, \<lparr>ci_chan = [2], ci_closed = True\<rparr>,
         \<lparr>ci_chan = [3], ci_closed = False\<rparr>] (7 :: nat)
      = (Some ForeignPanic,
         [\<lparr>ci_chan = [1, 7], ci_closed = False\<rparr>, \<lparr>ci_chan = [2], ci_closed = True\<rparr>,
          \<lparr>ci_chan = [3], ci_closed = False\<rparr>])"
proof -
  let ?wr = "\<lambda>(out :: nat channeledInput) v. (Inr (out\<lparr>ci_chan := ci_chan out @ [v]\<rparr>) :: fault + nat channeledInput)"
  let ?wr3 = "\<lambda>(out :: nat channeledInput) v. if ci_closed out then Inl ForeignPanic
                  else Inr (out\<lparr>ci_chan := ci_chan out @ [v]\<rparr>)"
  let ?ego = "\<lparr>mx_outputs = replicate 2 (NewChanneledInput :: nat channeledInput)\<rparr>"
  have p: "multiplexer_pipeData ?wr [Answer 7 True None, Panics] ?ego
    = Some (Some ForeignPanic, \<lparr>mx_outputs = replicate 2 \<lparr>ci_chan = [7], ci_closed = True\<rparr>\<rparr>)"
    by (simp add: multiplexer_pipeData_def mx_deferred ChanneledInput_Close_def
        NewChanneledInput_def numeral_2_eq_2)
  have h: "(\<forall>out v. \<not> ci_closed out \<longrightarrow> ?wr out v = Inr (out\<lparr>ci_chan := ci_chan out @ [v]\<rparr>))
      \<and> (\<forall>out \<in> set (mx_outputs ?ego). \<not> ci_closed out)
      \<and> (None \<noteq> (None :: string option) \<or> \<not> False)"
    by (simp add: NewChanneledInput_def)
  have h3: "(\<forall>out v. \<not> ci_closed out \<longrightarrow> ?wr3 out v = Inr (out\<lparr>ci_chan := ci_chan out @ [v]\<rparr>))
      \<and> (\<forall>out \<in> set [\<lparr>ci_chan = [1], ci_closed = False\<rparr>]. \<not> ci_closed out)
      \<and> ?wr3 \<lparr>ci_chan = [2], ci_closed = True\<rparr> 7 = Inl ForeignPanic"
    by simp
  have m: "map (\<lambda>v. Answer v True None) [7, 8 :: nat] @ Answer 0 False None # [Answer 9 True None]
             = [Answer 7 True None, Answer 8 True None, Answer 0 False None, Answer 9 True None]"
    by simp
  have t: "multiplexer_pipeData ?wr
      [Answer 7 True None, Answer 8 True None, Answer 0 False None, Answer 9 True None] ?ego
    = Some (None, \<lparr>mx_outputs = replicate 2 \<lparr>ci_chan = [7, 8], ci_closed = True\<rparr>\<rparr>)
    \<and> multiplexer_writeAll ?wr3
        ([\<lparr>ci_chan = [1], ci_closed = False\<rparr>] @ \<lparr>ci_chan = [2], ci_closed = True\<rparr>
           # [\<lparr>ci_chan = [3], ci_closed = False\<rparr>]) 7
      = (Some ForeignPanic,
         map (\<lambda>out. out\<lparr>ci_chan := ci_chan out @ [7]\<rparr>) [\<lparr>ci_chan = [1], ci_closed = False\<rparr>]
           @ \<lparr>ci_chan = [2], ci_closed = True\<rparr> # [\<lparr>ci_chan = [3], ci_closed = False\<rparr>])"
    using pipeData_broadcasts_and_closes [of ?wr ?ego None False "[7, 8]" 0 "[Answer 9 True None]"
        ?wr "[Answer 7 True None, Panics]" ?ego "Some ForeignPanic"
        "\<lparr>mx_outputs = replicate 2 \<lparr>ci_chan = [7], ci_closed = True\<rparr>\<rparr>"
        ?wr3 "[\<lparr>ci_chan = [1], ci_closed = False\<rparr>]" "\<lparr>ci_chan = [2], ci_closed = True\<rparr>" 7
        ForeignPanic "[\<lparr>ci_chan = [3], ci_closed = False\<rparr>]"] h h3
    unfolding m
    by (simp add: NewChanneledInput_def numeral_2_eq_2)
  from t p show ?thesis by (simp add: numeral_2_eq_2)
qed

end
